theory Spec2Isabelle
  imports Main "HOL-Library.Word"
begin

section \<open>Strings\<close>

text \<open>
  A Go string that holds valid UTF-8 is modelled as the list of its code points.
  Every string that reaches the sanitizer is of that kind: it is the content field of a
  decoded JSON reply, and the decoder replaces invalid bytes by U+FFFD. The names and
  the message text given to the generator are taken to be valid UTF-8 as well.
  \<open>len\<close> is Go's \<open>len\<close> on the string, the number of bytes of the UTF-8 encoding;
  \<open>length\<close> on the list is the number of runes, the length of \<open>[]rune(s)\<close>.
\<close>

type_synonym rune = nat
type_synonym gostring = "rune list"

definition utf8_width :: "rune \<Rightarrow> nat" where
  "utf8_width r =
     (if r < 0x80 then 1 else if r < 0x800 then 2 else if r < 0x10000 then 3 else 4)"

definition len :: "gostring \<Rightarrow> nat" where
  "len s = sum_list (map utf8_width s)"

text \<open>ASCII literals of the source, written as Isabelle strings.\<close>

definition ascii :: "string \<Rightarrow> gostring" where
  "ascii cs = map of_char cs"

definition underscore :: rune where
  "underscore = 95"

text \<open>
  \<open>unicode.IsSpace\<close>: tab, line feed, vertical tab, form feed, carriage return, space,
  U+0085, U+00A0 and the other code points with the White_Space property.
\<close>

definition IsSpace :: "rune \<Rightarrow> bool" where
  "IsSpace r =
     (r \<in> {9, 10, 11, 12, 13, 32, 0x85, 0xA0, 0x1680, 0x2028, 0x2029, 0x202F, 0x205F, 0x3000}
      \<or> (0x2000 \<le> r \<and> r \<le> 0x200A))"

definition TrimLeftFunc :: "gostring \<Rightarrow> (rune \<Rightarrow> bool) \<Rightarrow> gostring" where
  "TrimLeftFunc s f = dropWhile f s"

definition TrimRightFunc :: "gostring \<Rightarrow> (rune \<Rightarrow> bool) \<Rightarrow> gostring" where
  "TrimRightFunc s f = rev (dropWhile f (rev s))"

definition TrimFunc :: "gostring \<Rightarrow> (rune \<Rightarrow> bool) \<Rightarrow> gostring" where
  "TrimFunc s f = TrimRightFunc (TrimLeftFunc s f) f"

text \<open>\<open>strings.Trim(s, cutset)\<close> and \<open>strings.TrimSpace(s)\<close>.\<close>

definition Trim :: "gostring \<Rightarrow> gostring \<Rightarrow> gostring" where
  "Trim s cutset = TrimFunc s (\<lambda>r. r \<in> set cutset)"

definition TrimSpace :: "gostring \<Rightarrow> gostring" where
  "TrimSpace s = TrimFunc s IsSpace"

definition HasSuffix :: "gostring \<Rightarrow> gostring \<Rightarrow> bool" where
  "HasSuffix s suffix =
     (length suffix \<le> length s \<and> drop (length s - length suffix) s = suffix)"

definition TrimSuffix :: "gostring \<Rightarrow> gostring \<Rightarrow> gostring" where
  "TrimSuffix s suffix =
     (if HasSuffix s suffix then take (length s - length suffix) s else s)"

section \<open>The two regular expressions of the sanitizer\<close>

text \<open>
  The class \<open>[<>:"/\\|?*]\<close>, and the class \<open>[\s_]\<close>, where Go's \<open>\s\<close> is the ASCII
  class \<open>[\t\n\f\r ]\<close>: it has no vertical tab and no character beyond ASCII.
\<close>

definition invalidChars :: "rune \<Rightarrow> bool" where
  "invalidChars r = (r \<in> {60, 62, 58, 34, 47, 92, 124, 63, 42})"

definition re_space :: "rune \<Rightarrow> bool" where
  "re_space r = (r \<in> {9, 10, 12, 13, 32})"

definition multiSpace :: "rune \<Rightarrow> bool" where
  "multiSpace r = (re_space r \<or> r = underscore)"

text \<open>
  \<open>ReplaceAllString\<close> with a replacement that has no \<open>$\<close>: for a one-character class
  every matching rune is replaced; for a class under \<open>+\<close> every maximal run is.
\<close>

definition ReplaceAllString :: "(rune \<Rightarrow> bool) \<Rightarrow> gostring \<Rightarrow> gostring \<Rightarrow> gostring" where
  "ReplaceAllString cls src repl = concat (map (\<lambda>r. if cls r then repl else [r]) src)"

function ReplaceAllString_plus :: "(rune \<Rightarrow> bool) \<Rightarrow> gostring \<Rightarrow> gostring \<Rightarrow> gostring" where
  "ReplaceAllString_plus cls [] repl = []"
| "ReplaceAllString_plus cls (r # rs) repl =
     (if cls r then repl @ ReplaceAllString_plus cls (dropWhile cls rs) repl
      else r # ReplaceAllString_plus cls rs repl)"
  by pat_completeness auto
termination
  by (relation "measure (\<lambda>(cls, src, repl). length src)")
     (auto simp: length_dropWhile_le less_Suc_eq_le)

section \<open>The sanitizer\<close>

text \<open>
  The run-time panics of the modelled code: a slice expression out of range, and a read
  through a nil pointer.
\<close>

datatype panic = SliceBoundsOutOfRange | NilPointerDereference

text \<open>
  The conversion \<open>[]rune(name)\<close> gives a slice of the runes of the name. The language fixes
  its length and leaves its capacity to the runtime, which may round the allocation up
  (the standard runtime gives a buffer of 32 runes to a short conversion that does not
  escape, and a size class of the allocator otherwise) and zeroes the elements past the
  length. The spare capacity chosen for each length is a parameter of the model. A slice
  is kept as its elements and its capacity.
\<close>

definition to_runes :: "(nat \<Rightarrow> nat) \<Rightarrow> gostring \<Rightarrow> rune list \<times> nat" where
  "to_runes spare s = (s, length s + spare (length s))"

text \<open>
  The slice expression \<open>runes[:n]\<close> is in range up to the capacity, not the length: past
  the capacity it panics, and between length and capacity it takes zeroed elements in.
\<close>

definition slice_to :: "rune list \<times> nat \<Rightarrow> nat \<Rightarrow> panic + rune list" where
  "slice_to sl n =
     (case sl of (runes, cap) \<Rightarrow>
        if n \<le> cap then Inr (take n (runes @ replicate (cap - length runes) 0))
        else Inl SliceBoundsOutOfRange)"

definition cleanFileName :: "(nat \<Rightarrow> nat) \<Rightarrow> gostring \<Rightarrow> panic + gostring" where
  "cleanFileName spare name0 =
     (let name1 = Trim name0 [34, 39, 96];
          name2 = TrimSpace name1;
          name3 = ReplaceAllString invalidChars name2 [underscore];
          name4 = ReplaceAllString_plus multiSpace name3 [underscore];
          name5 = Trim name4 [underscore]
      in if len name5 > 50 then slice_to (to_runes spare name5) 50 else Inr name5)"

definition cleanFolderName :: "(nat \<Rightarrow> nat) \<Rightarrow> gostring \<Rightarrow> panic + gostring" where
  "cleanFolderName spare name0 =
     (let name1 = Trim name0 [34, 39, 96];
          name2 = TrimSpace name1;
          name3 = ReplaceAllString invalidChars name2 [underscore];
          name4 = ReplaceAllString_plus multiSpace name3 [underscore];
          name5 = Trim name4 [underscore]
      in if len name5 > 30 then slice_to (to_runes spare name5) 30 else Inr name5)"

section \<open>Extension of a file name\<close>

text \<open>
  \<open>filepath.Ext\<close> scans from the last byte down to the first path separator and
  returns the text from the first dot it meets. Separator and dot are ASCII, so the scan
  over runes meets them at the same places as the scan over bytes. The separator is
  the one of a Unix build.
\<close>

definition IsPathSeparator :: "rune \<Rightarrow> bool" where
  "IsPathSeparator c = (c = 47)"

fun Ext_loop :: "gostring \<Rightarrow> nat \<Rightarrow> gostring" where
  "Ext_loop path 0 = []"
| "Ext_loop path (Suc i) =
     (if IsPathSeparator (path ! i) then []
      else if path ! i = 46 then drop i path
      else Ext_loop path i)"

definition Ext :: "gostring \<Rightarrow> gostring" where
  "Ext path = Ext_loop path (length path)"

section \<open>Configuration and wire types\<close>

record AIRename =
  Enable :: bool
  Endpoint :: gostring
  Model :: gostring
  APIKey :: gostring
  Prompt :: gostring
  Timeout :: int
  MaxTokens :: int
  Temperature :: "32 word"

record ChatMessage =
  Role :: gostring
  Content :: gostring

record ChatRequest =
  ReqModel :: gostring
  Messages :: "ChatMessage list"
  ReqMaxTokens :: int
  ReqTemperature :: "32 word"

record ChatChoice =
  Message :: ChatMessage

record APIError =
  ErrMessage :: gostring
  ErrType :: gostring
  Code :: gostring

record ChatResponse =
  Choices :: "ChatChoice list"
  Error :: "APIError option"

text \<open>
  An error of a library call is kept as its message. The body of a response is what
  \<open>io.ReadAll\<close> gives on it: the bytes, or a read error. Bodies are kept as lists like
  the strings; of a body only its decoding by \<open>json.Unmarshal\<close> is used.
\<close>

type_synonym lib_error = gostring

record HTTPRequest =
  Method :: gostring
  URL :: gostring
  Header :: "(gostring \<times> gostring) list"
  ReqBody :: gostring

record HTTPResponse =
  StatusCode :: int
  Body :: "lib_error + gostring"

definition Header_Set :: "gostring \<Rightarrow> gostring \<Rightarrow> HTTPRequest \<Rightarrow> HTTPRequest" where
  "Header_Set k v r = r\<lparr>Header := (k, v) # filter (\<lambda>kv. fst kv \<noteq> k) (Header r)\<rparr>"

text \<open>The errors \<open>callAI\<close> builds with \<open>fmt.Errorf\<close>, one constructor per format string.\<close>

datatype goerror =
    marshal_request lib_error
  | create_request lib_error
  | send_request lib_error
  | read_response lib_error
  | API_error_status int gostring
  | unmarshal_response lib_error
  | API_error gostring
  | no_choices

text \<open>
  The library, the network and the runtime, as the functions the code calls:
  \<open>fmt.Sprintf\<close>, \<open>json.Marshal\<close>, \<open>http.NewRequestWithContext\<close>, the client's \<open>Do\<close>
  (transport, timeout and cancellation are its errors), \<open>json.Unmarshal\<close>, and the spare
  capacity the runtime gives to a rune slice of each length.
\<close>

record env =
  Sprintf :: "gostring \<Rightarrow> gostring list \<Rightarrow> gostring"
  Marshal :: "ChatRequest \<Rightarrow> lib_error + gostring"
  NewRequestWithContext :: "gostring \<Rightarrow> gostring \<Rightarrow> gostring \<Rightarrow> lib_error + HTTPRequest"
  client_Do :: "HTTPRequest \<Rightarrow> lib_error + HTTPResponse"
  Unmarshal :: "gostring \<Rightarrow> lib_error + ChatResponse"
  spare_cap :: "nat \<Rightarrow> nat"

text \<open>What a call does besides returning: entering \<open>callAI\<close>, and sending a request.\<close>

datatype event = CallAI gostring | ClientDo HTTPRequest

section \<open>Prompts\<close>

definition defaultPrompt_file :: gostring where
  "defaultPrompt_file =
   [35831, 26681, 25454, 20197, 19979, 28040, 24687, 20869, 23481, 65292, 20026, 25991,
    20214, 29983, 25104, 19968, 20010, 21512, 36866, 30340, 20013, 25991, 25991, 20214,
    21517, 12290, 35201, 27714, 65306, 10, 49, 46, 32, 25991, 20214, 21517, 24212, 35813,
    31616, 27905, 26126, 20102, 65292, 33021, 22815, 21453, 26144, 25991, 20214, 20869,
    23481, 10, 50, 46, 32, 20351, 29992, 20013, 25991, 10, 51, 46, 32, 19981, 35201, 21253,
    21547, 29305, 27530, 23383, 31526, 65292, 21482, 20351, 29992, 20013, 25991, 12289,
    33521, 25991, 23383, 27597, 12289, 25968, 23383, 12289, 19979, 21010, 32447, 21644,
    30701, 27178, 32447, 10, 52, 46, 32, 38271, 24230, 25511, 21046, 22312, 53, 48, 20010,
    23383, 31526, 20197, 20869, 10, 53, 46, 32, 21482, 36820, 22238, 25991, 20214, 21517,
    65292, 19981, 35201, 21253, 21547, 25193, 23637, 21517, 21644, 20854, 20182, 35828,
    26126, 10, 10, 28040, 24687, 20869, 23481, 65306, 37, 115, 10, 21407, 22987, 25991,
    20214, 21517, 65306, 37, 115, 10, 10, 35831, 29983, 25104, 26032, 30340, 25991, 20214,
    21517, 65306]"

definition defaultPrompt_folder :: gostring where
  "defaultPrompt_folder =
   [35831, 26681, 25454, 20197, 19979, 28040, 24687, 20869, 23481, 65292, 20026, 30456,
    20876, 25991, 20214, 22841, 29983, 25104, 19968, 20010, 21512, 36866, 30340, 20013,
    25991, 25991, 20214, 22841, 21517, 12290, 35201, 27714, 65306, 10, 49, 46, 32, 25991,
    20214, 22841, 21517, 24212, 35813, 31616, 27905, 26126, 20102, 65292, 33021, 22815,
    21453, 26144, 30456, 20876, 20869, 23481, 10, 50, 46, 32, 20351, 29992, 20013, 25991,
    10, 51, 46, 32, 19981, 35201, 21253, 21547, 29305, 27530, 23383, 31526, 65292, 21482,
    20351, 29992, 20013, 25991, 12289, 33521, 25991, 23383, 27597, 12289, 25968, 23383,
    12289, 19979, 21010, 32447, 21644, 30701, 27178, 32447, 10, 52, 46, 32, 38271, 24230,
    25511, 21046, 22312, 51, 48, 20010, 23383, 31526, 20197, 20869, 10, 53, 46, 32, 21482,
    36820, 22238, 25991, 20214, 22841, 21517, 65292, 19981, 35201, 21253, 21547, 20854,
    20182, 35828, 26126, 10, 10, 28040, 24687, 20869, 23481, 65306, 37, 115, 10, 40664,
    35748, 25991, 20214, 22841, 21517, 65306, 37, 115, 10, 10, 35831, 29983, 25104, 26032,
    30340, 25991, 20214, 22841, 21517, 65306]"

definition buildPrompt :: "env \<Rightarrow> AIRename \<Rightarrow> gostring \<Rightarrow> gostring \<Rightarrow> gostring" where
  "buildPrompt e cfg messageText originalBaseName =
     (let prompt = (if Prompt cfg = [] then defaultPrompt_file else Prompt cfg)
      in Sprintf e prompt [messageText, originalBaseName])"

definition buildFolderPrompt :: "env \<Rightarrow> AIRename \<Rightarrow> gostring \<Rightarrow> gostring \<Rightarrow> gostring" where
  "buildFolderPrompt e cfg messageText defaultName =
     (let prompt = (if Prompt cfg = [] then defaultPrompt_folder else Prompt cfg)
      in Sprintf e prompt [messageText, defaultName])"

section \<open>The remote call\<close>

text \<open>The checks on a response whose body was read, in the order of the source.\<close>

definition check_body :: "env \<Rightarrow> int \<Rightarrow> gostring \<Rightarrow> goerror + gostring" where
  "check_body e status body =
     (if status \<noteq> 200 then Inl (API_error_status status body)
      else case Unmarshal e body of
        Inl err \<Rightarrow> Inl (unmarshal_response err)
      | Inr chatResp \<Rightarrow>
          (case Error chatResp of
             Some apiErr \<Rightarrow> Inl (API_error (ErrMessage apiErr))
           | None \<Rightarrow>
               if length (Choices chatResp) = 0 then Inl no_choices
               else Inr (TrimSpace (Content (Message (Choices chatResp ! 0))))))"

definition callAI :: "env \<Rightarrow> AIRename \<Rightarrow> gostring \<Rightarrow> (goerror + gostring) \<times> event list" where
  "callAI e cfg prompt =
     (let req = \<lparr>ReqModel = Model cfg,
                 Messages = [\<lparr>Role = ascii ''user'', Content = prompt\<rparr>],
                 ReqMaxTokens = MaxTokens cfg,
                 ReqTemperature = Temperature cfg\<rparr>
      in case Marshal e req of
        Inl err \<Rightarrow> (Inl (marshal_request err), [CallAI prompt])
      | Inr reqBody \<Rightarrow>
          (case NewRequestWithContext e (ascii ''POST'') (Endpoint cfg) reqBody of
             Inl err \<Rightarrow> (Inl (create_request err), [CallAI prompt])
           | Inr httpReq0 \<Rightarrow>
               (let httpReq1 = Header_Set (ascii ''Content-Type'') (ascii ''application/json'') httpReq0;
                    httpReq = Header_Set (ascii ''Authorization'') (ascii ''Bearer '' @ APIKey cfg) httpReq1;
                    evs = [CallAI prompt, ClientDo httpReq]
                in case client_Do e httpReq of
                  Inl err \<Rightarrow> (Inl (send_request err), evs)
                | Inr resp \<Rightarrow>
                    (case Body resp of
                       Inl err \<Rightarrow> (Inl (read_response err), evs)
                     | Inr body \<Rightarrow> (check_body e (StatusCode resp) body, evs)))))"

section \<open>The generator\<close>

text \<open>
  The result of a call is the pair the Go function returns, or a panic, together with
  the events of the call. Log lines are not part of the result and are left out. The
  receiver and its configuration pointer are valid, as \<open>NewRenameService\<close> leaves them:
  the model takes the configuration itself.
\<close>

type_synonym result = "(panic + gostring \<times> goerror option) \<times> event list"

definition GenerateFileName :: "env \<Rightarrow> AIRename \<Rightarrow> gostring \<Rightarrow> gostring \<Rightarrow> result" where
  "GenerateFileName e cfg messageText originalFileName =
     (if \<not> Enable cfg then (Inr (originalFileName, None), [])
      else if messageText = [] then (Inr (originalFileName, None), [])
      else
        (let ext = Ext originalFileName;
             baseName = TrimSuffix originalFileName ext;
             prompt = buildPrompt e cfg messageText baseName
         in case callAI e cfg prompt of
           (Inl err, evs) \<Rightarrow> (Inr (originalFileName, Some err), evs)
         | (Inr newName, evs) \<Rightarrow>
             (case cleanFileName (spare_cap e) newName of
                Inl p \<Rightarrow> (Inl p, evs)
              | Inr cleanName \<Rightarrow>
                  if cleanName = [] then (Inr (originalFileName, None), evs)
                  else if \<not> HasSuffix cleanName ext then (Inr (cleanName @ ext, None), evs)
                  else (Inr (cleanName, None), evs))))"

definition GenerateFolderName :: "env \<Rightarrow> AIRename \<Rightarrow> gostring \<Rightarrow> gostring \<Rightarrow> result" where
  "GenerateFolderName e cfg messageText defaultName =
     (if \<not> Enable cfg then (Inr (defaultName, None), [])
      else if messageText = [] then (Inr (defaultName, None), [])
      else
        (let prompt = buildFolderPrompt e cfg messageText defaultName
         in case callAI e cfg prompt of
           (Inl err, evs) \<Rightarrow> (Inr (defaultName, Some err), evs)
         | (Inr newName, evs) \<Rightarrow>
             (case cleanFolderName (spare_cap e) newName of
                Inl p \<Rightarrow> (Inl p, evs)
              | Inr cleanName \<Rightarrow>
                  if cleanName = [] then (Inr (defaultName, None), evs)
                  else (Inr (cleanName, None), evs))))"

section \<open>The shared instance\<close>

text \<open>
  Pointers are kept apart from what they point to. A \<open>*config.AIRename\<close> is nil, the
  address of the field \<open>AIRename\<close> of the global \<open>config.Cfg\<close>, or the address of some other
  configuration; a \<open>*RenameService\<close> is nil (\<open>None\<close>) or the index of an allocated service.
  The declaration of \<open>config.Cfg\<close> is not part of the sources: its field is a component of
  the state, and taking its address never fails.
\<close>

datatype cfg_ptr = nil_cfg | addr_Cfg_AIRename | addr_cfg nat

record RenameService =
  config :: cfg_ptr
  client_Timeout :: int

record globals =
  Cfg_AIRename :: AIRename
  cfg_heap :: "nat \<rightharpoonup> AIRename"
  services :: "RenameService list"
  renameService :: "nat option"
  once_done :: bool

fun deref :: "globals \<Rightarrow> cfg_ptr \<Rightarrow> AIRename option" where
  "deref g nil_cfg = None"
| "deref g addr_Cfg_AIRename = Some (Cfg_AIRename g)"
| "deref g (addr_cfg a) = cfg_heap g a"

definition NewRenameService :: "cfg_ptr \<Rightarrow> globals \<Rightarrow> panic + nat \<times> globals" where
  "NewRenameService cfg g =
     (case deref g cfg of
        None \<Rightarrow> Inl NilPointerDereference
      | Some c \<Rightarrow>
          Inr (length (services g),
               g\<lparr>services := services g @ [\<lparr>config = cfg, client_Timeout = Timeout c\<rparr>]\<rparr>))"

text \<open>
  \<open>once.Do(f)\<close> runs \<open>f\<close> when the guard is not yet done and marks it done; afterwards it
  does nothing. \<open>InitRenameService\<close> assigns the variable and does not touch the guard.
\<close>

definition GetRenameService :: "globals \<Rightarrow> panic + nat option \<times> globals" where
  "GetRenameService g =
     (if once_done g then Inr (renameService g, g)
      else case NewRenameService addr_Cfg_AIRename g of
        Inl p \<Rightarrow> Inl p
      | Inr (s, g1) \<Rightarrow>
          (let g2 = g1\<lparr>renameService := Some s, once_done := True\<rparr>
           in Inr (renameService g2, g2)))"

definition InitRenameService :: "cfg_ptr \<Rightarrow> globals \<Rightarrow> panic + globals" where
  "InitRenameService cfg g =
     (case NewRenameService cfg g of
        Inl p \<Rightarrow> Inl p
      | Inr (s, g1) \<Rightarrow> Inr (g1\<lparr>renameService := Some s\<rparr>))"

section \<open>The standard runtime, and test doubles\<close>

text \<open>
  The spare capacity that the standard Go runtime gives to \<open>[]rune(name)\<close> when the slice
  does not escape, as here (\<open>stringtoslicerune\<close>): up to 32 runes are converted into a
  buffer of 32 runes; a longer conversion is allocated (\<open>rawruneslice\<close>) with its size in
  bytes rounded up to a size class of the allocator, or to whole pages of 8192 bytes
  beyond the largest class (\<open>roundupsize\<close>). So 20 runes get capacity 32 and 49 runes
  capacity 52.
\<close>

definition size_classes :: "nat list" where
  "size_classes =
     [8, 16, 24, 32, 48, 64, 80, 96, 112, 128, 144, 160, 176, 192, 208, 224, 240, 256,
      288, 320, 352, 384, 416, 448, 480, 512, 576, 640, 704, 768, 896, 1024, 1152, 1280,
      1408, 1536, 1792, 2048, 2304, 2688, 3072, 3200, 3456, 4096, 4864, 5120, 5376, 6144,
      6528, 6784, 6912, 8192, 9472, 9728, 10240, 10880, 12288, 13568, 14336, 16384, 18432,
      19072, 20480, 21760, 24576, 27264, 28672, 32768]"

definition roundupsize :: "nat \<Rightarrow> nat" where
  "roundupsize reqSize =
     (case find (\<lambda>c. reqSize \<le> c) size_classes of
        Some c \<Rightarrow> c
      | None \<Rightarrow> (reqSize + 8191) div 8192 * 8192)"

definition buffer32 :: "nat \<Rightarrow> nat" where
  "buffer32 n = (if n \<le> 32 then 32 - n else roundupsize (4 * n) div 4 - n)"

text \<open>
  An environment with that runtime, whose server gives the same answer to every request
  and whose decoder gives the same result on every body; and two configurations.
\<close>

definition stub_env :: "(lib_error + HTTPResponse) \<Rightarrow> (lib_error + ChatResponse) \<Rightarrow> env" where
  "stub_env reply parsed =
     \<lparr>Sprintf = (\<lambda>format args. format),
      Marshal = (\<lambda>req. Inr []),
      NewRequestWithContext = (\<lambda>m u b. Inr \<lparr>Method = m, URL = u, Header = [], ReqBody = b\<rparr>),
      client_Do = (\<lambda>r. reply),
      Unmarshal = (\<lambda>b. parsed),
      spare_cap = buffer32\<rparr>"

definition ok_reply :: "lib_error + HTTPResponse" where
  "ok_reply = Inr \<lparr>StatusCode = 200, Body = Inr []\<rparr>"

definition answer :: "gostring \<Rightarrow> lib_error + ChatResponse" where
  "answer content =
     Inr \<lparr>Choices = [\<lparr>Message = \<lparr>Role = ascii ''assistant'', Content = content\<rparr>\<rparr>],
          Error = None\<rparr>"

definition cfg_on :: AIRename where
  "cfg_on = \<lparr>Enable = True, Endpoint = [], Model = [], APIKey = [], Prompt = [],
             Timeout = 0, MaxTokens = 0, Temperature = 0\<rparr>"

definition cfg_off :: AIRename where
  "cfg_off = cfg_on\<lparr>Enable := False\<rparr>"

section \<open>Notions of the specification\<close>

text \<open>
  The specification speaks of a 2xx status, of a failure of the remote call, and of the
  extension as the text from the last dot. These definitions follow its words; the
  properties below compare them with the code.
\<close>

definition is_2xx :: "int \<Rightarrow> bool" where
  "is_2xx status = (200 \<le> status \<and> status < 300)"

text \<open>
  A failure of the remote call on a request that was sent: a transport error, a body that
  cannot be read, a status that is not 2xx, a payload that does not decode, an error
  object, or an empty list of choices.
\<close>

definition remote_failure :: "env \<Rightarrow> HTTPRequest \<Rightarrow> bool" where
  "remote_failure e r =
     (case client_Do e r of
        Inl err \<Rightarrow> True
      | Inr resp \<Rightarrow>
          (case Body resp of
             Inl err \<Rightarrow> True
           | Inr body \<Rightarrow>
               \<not> is_2xx (StatusCode resp) \<or>
               (case Unmarshal e body of
                  Inl err \<Rightarrow> True
                | Inr chatResp \<Rightarrow> Error chatResp \<noteq> None \<or> Choices chatResp = [])))"

text \<open>The text from the last dot of a name, the dot included; empty when there is no dot.\<close>

fun from_last_dot :: "gostring \<Rightarrow> gostring" where
  "from_last_dot [] = []"
| "from_last_dot (c # cs) =
     (if 46 \<in> set cs then from_last_dot cs else if c = 46 then c # cs else [])"

text \<open>The final element of a path: the text after its last separator.\<close>

definition final_element :: "gostring \<Rightarrow> gostring" where
  "final_element path = rev (takeWhile (\<lambda>c. \<not> IsPathSeparator c) (rev path))"

text \<open>The request that \<open>callAI\<close> sends under \<open>stub_env\<close> and \<open>cfg_on\<close>.\<close>

definition sent_request :: HTTPRequest where
  "sent_request =
     \<lparr>Method = ascii ''POST'', URL = [],
      Header = [(ascii ''Authorization'', ascii ''Bearer ''),
                (ascii ''Content-Type'', ascii ''application/json'')],
      ReqBody = []\<rparr>"

text \<open>
  A process state before any call, the state after injecting the configuration at address 0
  into it, and the state after the guarded constructor has then run.
\<close>

definition fresh_globals :: globals where
  "fresh_globals =
     \<lparr>Cfg_AIRename = cfg_on, cfg_heap = [0 \<mapsto> cfg_off], services = [],
      renameService = None, once_done = False\<rparr>"

definition injected_globals :: globals where
  "injected_globals =
     fresh_globals\<lparr>services := [\<lparr>config = addr_cfg 0, client_Timeout = 0\<rparr>],
                   renameService := Some 0\<rparr>"

definition rebuilt_globals :: globals where
  "rebuilt_globals =
     fresh_globals\<lparr>services := [\<lparr>config = addr_cfg 0, client_Timeout = 0\<rparr>,
                                 \<lparr>config = addr_Cfg_AIRename, client_Timeout = 0\<rparr>],
                   renameService := Some 1, once_done := True\<rparr>"

text \<open>
  The state after a first \<open>GetRenameService\<close> on the fresh state, and the state after
  injecting the configuration at address 0 into that.
\<close>

definition got_globals :: globals where
  "got_globals =
     fresh_globals\<lparr>services := [\<lparr>config = addr_Cfg_AIRename, client_Timeout = 0\<rparr>],
                   renameService := Some 0, once_done := True\<rparr>"

definition reinjected_globals :: globals where
  "reinjected_globals =
     fresh_globals\<lparr>services := [\<lparr>config = addr_Cfg_AIRename, client_Timeout = 0\<rparr>,
                                 \<lparr>config = addr_cfg 0, client_Timeout = 0\<rparr>],
                   renameService := Some 1, once_done := True\<rparr>"

section \<open>Notions about the sanitizer\<close>

text \<open>
  The cleaned form before truncation: what the five steps before the length check make
  of a name.
\<close>

definition cleaned :: "gostring \<Rightarrow> gostring" where
  "cleaned name0 =
     Trim (ReplaceAllString_plus multiSpace
             (ReplaceAllString invalidChars (TrimSpace (Trim name0 [34, 39, 96])) [underscore])
             [underscore])
          [underscore]"

definition no_adjacent_underscores :: "gostring \<Rightarrow> bool" where
  "no_adjacent_underscores s = successively (\<lambda>a b. \<not> (a = underscore \<and> b = underscore)) s"

text \<open>
  The characters that the sanitizer trims at the ends of a name: the three quote
  characters, white space, and the underscore.
\<close>

definition trimmed_char :: "rune \<Rightarrow> bool" where
  "trimmed_char c = (c \<in> set [34, 39, 96] \<or> IsSpace c \<or> c = underscore)"

definition clean_ends :: "gostring \<Rightarrow> bool" where
  "clean_ends s = (s = [] \<or> \<not> (trimmed_char (hd s) \<or> trimmed_char (last s)))"

text \<open>The length check and the truncation that end both sanitizers, for a limit \<open>n\<close>.\<close>

definition limit_to :: "nat \<Rightarrow> (nat \<Rightarrow> nat) \<Rightarrow> gostring \<Rightarrow> panic + gostring" where
  "limit_to n spare name =
     (if len name > n then slice_to (to_runes spare name) n else Inr name)"

section \<open>The sanitizer as the specification describes it\<close>

text \<open>
  The steps in the words of the specification, for comparison with the code: strip the
  quote characters and then the white space at both ends; replace each reserved
  character \<open>< > : " / \ | ? *\<close> by an underscore; collapse each run of tab, line feed,
  form feed, carriage return, space and underscore into one underscore; strip the
  underscores at both ends.
\<close>

fun strip_left :: "(rune \<Rightarrow> bool) \<Rightarrow> gostring \<Rightarrow> gostring" where
  "strip_left P [] = []"
| "strip_left P (c # cs) = (if P c then strip_left P cs else c # cs)"

definition strip :: "(rune \<Rightarrow> bool) \<Rightarrow> gostring \<Rightarrow> gostring" where
  "strip P s = rev (strip_left P (rev (strip_left P s)))"

definition replace_reserved :: "rune \<Rightarrow> rune" where
  "replace_reserved c = (if c \<in> {60, 62, 58, 34, 47, 92, 124, 63, 42} then 95 else c)"

definition in_run :: "rune \<Rightarrow> bool" where
  "in_run c = (c \<in> {9, 10, 12, 13, 32, 95})"

text \<open>
  One pass from the left; the flag says that the character before was part of a run,
  for which the underscore is already written.
\<close>

fun collapse_runs :: "bool \<Rightarrow> gostring \<Rightarrow> gostring" where
  "collapse_runs inside [] = []"
| "collapse_runs inside (c # cs) =
     (if in_run c then (if inside then collapse_runs True cs else 95 # collapse_runs True cs)
      else c # collapse_runs False cs)"

definition sanitize_steps :: "gostring \<Rightarrow> gostring" where
  "sanitize_steps s =
     strip (\<lambda>c. c = 95)
       (collapse_runs False
          (map replace_reserved
             (strip IsSpace (strip (\<lambda>c. c \<in> {34, 39, 96}) s))))"

section \<open>Evaluation rules\<close>

lemmas stub_simps = stub_env_def buffer32_def roundupsize_def size_classes_def ok_reply_def
  answer_def cfg_on_def cfg_off_def

lemmas gen_simps = GenerateFileName_def GenerateFolderName_def callAI_def check_body_def
  buildPrompt_def buildFolderPrompt_def Header_Set_def Let_def

lemmas clean_simps = cleanFileName_def cleanFolderName_def Trim_def TrimSpace_def TrimFunc_def
  TrimLeftFunc_def TrimRightFunc_def ReplaceAllString_def invalidChars_def multiSpace_def
  re_space_def underscore_def IsSpace_def len_def utf8_width_def slice_to_def to_runes_def
  ascii_def

lemmas ext_simps = Ext_def IsPathSeparator_def HasSuffix_def TrimSuffix_def

lemma replicate_numeral: "replicate (numeral k) x = x # replicate (pred_numeral k) x"
  by (simp add: numeral_eq_Suc)

section \<open>The remote call and the fallback\<close>

lemma callAI_events:
  "snd (callAI e cfg prompt) = [CallAI prompt] \<or>
   (\<exists>r. snd (callAI e cfg prompt) = [CallAI prompt, ClientDo r])"
  by (simp add: callAI_def Let_def split: sum.splits)

lemma callAI_sent:
  "snd (callAI e cfg prompt) = [CallAI prompt, ClientDo r] \<Longrightarrow>
   fst (callAI e cfg prompt) =
     (case client_Do e r of
        Inl err \<Rightarrow> Inl (send_request err)
      | Inr resp \<Rightarrow>
          (case Body resp of
             Inl err \<Rightarrow> Inl (read_response err)
           | Inr body \<Rightarrow> check_body e (StatusCode resp) body))"
  by (auto simp: callAI_def Let_def split: sum.splits)

lemma callAI_sent_iff:
  "ClientDo r \<in> set (snd (callAI e cfg prompt)) \<longleftrightarrow>
   snd (callAI e cfg prompt) = [CallAI prompt, ClientDo r]"
  using callAI_events [of e cfg prompt] by auto

lemma check_body_failure:
  "\<not> is_2xx status \<or>
     (case Unmarshal e body of Inl err \<Rightarrow> True
      | Inr chatResp \<Rightarrow> Error chatResp \<noteq> None \<or> Choices chatResp = []) \<Longrightarrow>
   \<exists>err. check_body e status body = Inl err"
  by (auto simp: check_body_def is_2xx_def split: sum.splits option.splits)

lemma callAI_failure:
  assumes "ClientDo r \<in> set (snd (callAI e cfg prompt))" "remote_failure e r"
  shows "\<exists>err. fst (callAI e cfg prompt) = Inl err"
proof -
  from assms(1) have sent: "snd (callAI e cfg prompt) = [CallAI prompt, ClientDo r]"
    by (simp add: callAI_sent_iff)
  show ?thesis
  proof (cases "client_Do e r")
    case (Inl err)
    then show ?thesis using callAI_sent [OF sent] by simp
  next
    case (Inr resp)
    show ?thesis
    proof (cases "Body resp")
      case (Inl err)
      then show ?thesis using callAI_sent [OF sent] Inr by simp
    next
      case body: (Inr body)
      from assms(2) Inr body have
        "\<not> is_2xx (StatusCode resp) \<or>
           (case Unmarshal e body of Inl err \<Rightarrow> True
            | Inr chatResp \<Rightarrow> Error chatResp \<noteq> None \<or> Choices chatResp = [])"
        by (simp add: remote_failure_def)
      from check_body_failure [OF this] show ?thesis
        using callAI_sent [OF sent] Inr body by simp
    qed
  qed
qed

lemma GenerateFileName_events:
  "Enable cfg \<Longrightarrow> messageText \<noteq> [] \<Longrightarrow>
   snd (GenerateFileName e cfg messageText originalFileName) =
   snd (callAI e cfg
         (buildPrompt e cfg messageText (TrimSuffix originalFileName (Ext originalFileName))))"
  by (auto simp: GenerateFileName_def Let_def split: prod.splits sum.splits)

lemma GenerateFileName_error:
  "Enable cfg \<Longrightarrow> messageText \<noteq> [] \<Longrightarrow>
   fst (callAI e cfg
         (buildPrompt e cfg messageText (TrimSuffix originalFileName (Ext originalFileName))))
     = Inl err \<Longrightarrow>
   fst (GenerateFileName e cfg messageText originalFileName) = Inr (originalFileName, Some err)"
  by (auto simp: GenerateFileName_def Let_def split: prod.splits sum.splits)

lemma GenerateFolderName_events:
  "Enable cfg \<Longrightarrow> messageText \<noteq> [] \<Longrightarrow>
   snd (GenerateFolderName e cfg messageText defaultName) =
   snd (callAI e cfg (buildFolderPrompt e cfg messageText defaultName))"
  by (auto simp: GenerateFolderName_def Let_def split: prod.splits sum.splits)

lemma GenerateFolderName_error:
  "Enable cfg \<Longrightarrow> messageText \<noteq> [] \<Longrightarrow>
   fst (callAI e cfg (buildFolderPrompt e cfg messageText defaultName)) = Inl err \<Longrightarrow>
   fst (GenerateFolderName e cfg messageText defaultName) = Inr (defaultName, Some err)"
  by (auto simp: GenerateFolderName_def Let_def split: prod.splits sum.splits)

text \<open>
  C2: when the configuration is enabled and the message text is not empty, every failure
  of the remote call on the request that was sent (transport error, unreadable body,
  status that is not 2xx, payload that does not decode, error object, empty choices)
  makes \<open>GenerateFileName\<close> return the original file name with an error, and
  \<open>GenerateFolderName\<close> the default name with an error.
\<close>

theorem remote_failure_returns_original_and_error:
  assumes "Enable cfg" and "messageText \<noteq> []" and "remote_failure e r"
  shows "(ClientDo r \<in> set (snd (GenerateFileName e cfg messageText originalFileName)) \<longrightarrow>
            (\<exists>err. fst (GenerateFileName e cfg messageText originalFileName)
                     = Inr (originalFileName, Some err)))
       \<and> (ClientDo r \<in> set (snd (GenerateFolderName e cfg messageText defaultName)) \<longrightarrow>
            (\<exists>err. fst (GenerateFolderName e cfg messageText defaultName)
                     = Inr (defaultName, Some err)))"
  using assms callAI_failure GenerateFileName_events GenerateFileName_error
    GenerateFolderName_events GenerateFolderName_error
  by metis

theorem remote_failure_returns_original_and_error_witness:
  "Enable cfg_on \<and> ascii ''hi'' \<noteq> [] \<and>
   remote_failure (stub_env ok_reply (Inr \<lparr>Choices = [], Error = None\<rparr>)) sent_request \<and>
   ClientDo sent_request \<in> set (snd (GenerateFileName
      (stub_env ok_reply (Inr \<lparr>Choices = [], Error = None\<rparr>)) cfg_on (ascii ''hi'') (ascii ''notes.txt''))) \<and>
   (\<exists>err. fst (GenerateFileName (stub_env ok_reply (Inr \<lparr>Choices = [], Error = None\<rparr>))
                 cfg_on (ascii ''hi'') (ascii ''notes.txt''))
           = Inr (ascii ''notes.txt'', Some err)) \<and>
   ClientDo sent_request \<in> set (snd (GenerateFolderName
      (stub_env ok_reply (Inr \<lparr>Choices = [], Error = None\<rparr>)) cfg_on (ascii ''hi'') (ascii ''album''))) \<and>
   (\<exists>err. fst (GenerateFolderName (stub_env ok_reply (Inr \<lparr>Choices = [], Error = None\<rparr>))
                 cfg_on (ascii ''hi'') (ascii ''album''))
           = Inr (ascii ''album'', Some err))"
proof -
  let ?e = "stub_env ok_reply (Inr \<lparr>Choices = [], Error = None\<rparr>)"
  have h1: "Enable cfg_on" by (simp add: cfg_on_def)
  have h2: "ascii ''hi'' \<noteq> []" by (simp add: ascii_def)
  have h3: "remote_failure ?e sent_request"
    by (simp add: remote_failure_def stub_simps is_2xx_def)
  have s1: "ClientDo sent_request \<in> set (snd (GenerateFileName ?e cfg_on (ascii ''hi'') (ascii ''notes.txt'')))"
    by (simp add: gen_simps stub_simps sent_request_def ascii_def)
  have s2: "ClientDo sent_request \<in> set (snd (GenerateFolderName ?e cfg_on (ascii ''hi'') (ascii ''album'')))"
    by (simp add: gen_simps stub_simps sent_request_def ascii_def)
  from remote_failure_returns_original_and_error [OF h1 h2 h3, of "ascii ''notes.txt''" "ascii ''album''"]
  show ?thesis using h1 h2 h3 s1 s2 by blast
qed

text \<open>
  C5: with a disabled configuration, and with an empty message text, both generators
  return the name they were given, no error and no event: \<open>callAI\<close> is not entered
  and no request is sent.
\<close>

theorem disabled_or_empty_text_is_passthrough:
  "\<not> Enable cfg \<or> messageText = [] \<Longrightarrow>
   GenerateFileName e cfg messageText originalFileName = (Inr (originalFileName, None), []) \<and>
   GenerateFolderName e cfg messageText defaultName = (Inr (defaultName, None), [])"
  by (auto simp: GenerateFileName_def GenerateFolderName_def)

theorem disabled_or_empty_text_is_passthrough_witness:
  "\<not> Enable cfg_off \<and>
   GenerateFileName (stub_env ok_reply (answer (ascii ''Report''))) cfg_off (ascii ''hi'')
     (ascii ''notes.txt'') = (Inr (ascii ''notes.txt'', None), []) \<and>
   GenerateFolderName (stub_env ok_reply (answer (ascii ''Report''))) cfg_off (ascii ''hi'')
     (ascii ''album'') = (Inr (ascii ''album'', None), []) \<and>
   Enable cfg_on \<and>
   GenerateFileName (stub_env ok_reply (answer (ascii ''Report''))) cfg_on []
     (ascii ''notes.txt'') = (Inr (ascii ''notes.txt'', None), []) \<and>
   GenerateFolderName (stub_env ok_reply (answer (ascii ''Report''))) cfg_on []
     (ascii ''album'') = (Inr (ascii ''album'', None), [])"
proof -
  have off: "\<not> Enable cfg_off" and on: "Enable cfg_on" by (simp_all add: stub_simps)
  from off have h: "\<not> Enable cfg_off \<or> ascii ''hi'' = []" by simp
  have h': "\<not> Enable cfg_on \<or> ([] :: gostring) = []" by simp
  from disabled_or_empty_text_is_passthrough [OF h] disabled_or_empty_text_is_passthrough [OF h']
  show ?thesis using off on by simp
qed

section \<open>The checks on a response\<close>

text \<open>
  C8, as stated, fails: a response with status 201 is a 2xx response, and the code
  reports it as a status failure although its payload holds a choice.
\<close>

theorem status_201_is_reported_as_failure:
  "is_2xx 201 \<and>
   fst (callAI (stub_env (Inr \<lparr>StatusCode = 201, Body = Inr []\<rparr>) (answer (ascii ''Report'')))
          cfg_on [])
     = Inl (API_error_status 201 [])"
  by (simp add: gen_simps stub_simps is_2xx_def)

text \<open>
  C8, amended: a response is a status failure exactly when its status is not 200. On a
  request that was sent the checks come in this order, the first that applies deciding
  the result whatever the later ones would find: transport error, unreadable body,
  status other than 200, payload that does not decode, error object, empty choices.
  Otherwise the content of the first choice is returned, trimmed of white space.
\<close>

theorem callAI_checks_in_order:
  assumes "ClientDo r \<in> set (snd (callAI e cfg prompt))"
  shows "(\<forall>err. client_Do e r = Inl err \<longrightarrow> fst (callAI e cfg prompt) = Inl (send_request err))
       \<and> (\<forall>resp. client_Do e r = Inr resp \<longrightarrow>
            (\<forall>err. Body resp = Inl err \<longrightarrow> fst (callAI e cfg prompt) = Inl (read_response err))
          \<and> (\<forall>body. Body resp = Inr body \<longrightarrow>
               (StatusCode resp \<noteq> 200 \<longrightarrow>
                  fst (callAI e cfg prompt) = Inl (API_error_status (StatusCode resp) body))
             \<and> (StatusCode resp = 200 \<longrightarrow>
                  (\<forall>err. Unmarshal e body = Inl err \<longrightarrow>
                     fst (callAI e cfg prompt) = Inl (unmarshal_response err))
                \<and> (\<forall>chatResp. Unmarshal e body = Inr chatResp \<longrightarrow>
                     (\<forall>apiErr. Error chatResp = Some apiErr \<longrightarrow>
                        fst (callAI e cfg prompt) = Inl (API_error (ErrMessage apiErr)))
                   \<and> (Error chatResp = None \<and> Choices chatResp = [] \<longrightarrow>
                        fst (callAI e cfg prompt) = Inl no_choices)
                   \<and> (Error chatResp = None \<and> Choices chatResp \<noteq> [] \<longrightarrow>
                        fst (callAI e cfg prompt)
                          = Inr (TrimSpace (Content (Message (hd (Choices chatResp))))))))))"
proof -
  from assms have sent: "snd (callAI e cfg prompt) = [CallAI prompt, ClientDo r]"
    by (simp add: callAI_sent_iff)
  show ?thesis
    unfolding callAI_sent [OF sent]
    by (auto simp: check_body_def hd_conv_nth split: sum.splits option.splits)
qed

theorem callAI_checks_in_order_witness:
  "ClientDo sent_request \<in> set (snd (callAI
      (stub_env (Inr \<lparr>StatusCode = 500, Body = Inr (ascii ''oops'')\<rparr>)
                (Inr \<lparr>Choices = [], Error = Some \<lparr>ErrMessage = ascii ''quota'', ErrType = [], Code = []\<rparr>\<rparr>))
      cfg_on [])) \<and>
   fst (callAI
      (stub_env (Inr \<lparr>StatusCode = 500, Body = Inr (ascii ''oops'')\<rparr>)
                (Inr \<lparr>Choices = [], Error = Some \<lparr>ErrMessage = ascii ''quota'', ErrType = [], Code = []\<rparr>\<rparr>))
      cfg_on []) = Inl (API_error_status 500 (ascii ''oops'')) \<and>
   ClientDo sent_request \<in> set (snd (callAI
      (stub_env ok_reply
                (Inr \<lparr>Choices = [], Error = Some \<lparr>ErrMessage = ascii ''quota'', ErrType = [], Code = []\<rparr>\<rparr>))
      cfg_on [])) \<and>
   fst (callAI
      (stub_env ok_reply
                (Inr \<lparr>Choices = [], Error = Some \<lparr>ErrMessage = ascii ''quota'', ErrType = [], Code = []\<rparr>\<rparr>))
      cfg_on []) = Inl (API_error (ascii ''quota'')) \<and>
   ClientDo sent_request \<in> set (snd (callAI (stub_env ok_reply (answer (ascii '' Report ''))) cfg_on [])) \<and>
   fst (callAI (stub_env ok_reply (answer (ascii '' Report ''))) cfg_on []) = Inr (ascii ''Report'')"
proof -
  let ?quota = "Inr \<lparr>Choices = [], Error = Some \<lparr>ErrMessage = ascii ''quota'', ErrType = [], Code = []\<rparr>\<rparr>"
  let ?e1 = "stub_env (Inr \<lparr>StatusCode = 500, Body = Inr (ascii ''oops'')\<rparr>) ?quota"
  let ?e2 = "stub_env ok_reply ?quota"
  let ?e3 = "stub_env ok_reply (answer (ascii '' Report ''))"
  have s1: "ClientDo sent_request \<in> set (snd (callAI ?e1 cfg_on []))"
    by (simp add: gen_simps stub_simps sent_request_def ascii_def)
  have s2: "ClientDo sent_request \<in> set (snd (callAI ?e2 cfg_on []))"
    by (simp add: gen_simps stub_simps sent_request_def ascii_def)
  have s3: "ClientDo sent_request \<in> set (snd (callAI ?e3 cfg_on []))"
    by (simp add: gen_simps stub_simps sent_request_def ascii_def)
  have r1: "fst (callAI ?e1 cfg_on []) = Inl (API_error_status 500 (ascii ''oops''))"
    using callAI_checks_in_order [OF s1] by (simp add: stub_simps)
  have r2: "fst (callAI ?e2 cfg_on []) = Inl (API_error (ascii ''quota''))"
    using callAI_checks_in_order [OF s2] by (simp add: stub_simps)
  have t: "TrimSpace (ascii '' Report '') = ascii ''Report''"
    by (simp add: clean_simps)
  have r3: "fst (callAI ?e3 cfg_on []) = Inr (ascii ''Report'')"
    using callAI_checks_in_order [OF s3] t by (simp add: stub_simps)
  from s1 s2 s3 r1 r2 r3 show ?thesis by blast
qed

section \<open>The returned name\<close>

text \<open>
  C9, as stated, fails: with a disabled configuration and an empty original name the
  returned name is empty.
\<close>

theorem empty_original_gives_empty_name:
  "fst (GenerateFileName (stub_env ok_reply (answer (ascii ''Report''))) cfg_off (ascii ''hi'') [])
     = Inr ([], None)"
  by (simp add: gen_simps stub_simps)

text \<open>
  C9, amended: whenever the original file name (the default folder name) is not empty,
  every name that \<open>GenerateFileName\<close> (\<open>GenerateFolderName\<close>) returns is not empty,
  whatever the configuration, the message text and the behaviour of the remote side.
\<close>

theorem returned_name_nonempty:
  "(originalFileName \<noteq> [] \<and>
      fst (GenerateFileName e cfg messageText originalFileName) = Inr (name, err) \<longrightarrow> name \<noteq> [])
 \<and> (defaultName \<noteq> [] \<and>
      fst (GenerateFolderName e cfg messageText defaultName) = Inr (name', err') \<longrightarrow> name' \<noteq> [])"
  by (auto simp: GenerateFileName_def GenerateFolderName_def Let_def
      split: if_splits prod.splits sum.splits)

theorem returned_name_nonempty_witness:
  "ascii ''notes.txt'' \<noteq> [] \<and>
   fst (GenerateFileName (stub_env ok_reply (answer (ascii ''Report''))) cfg_on (ascii ''hi'')
         (ascii ''notes.txt'')) = Inr (ascii ''Report.txt'', None) \<and>
   ascii ''Report.txt'' \<noteq> [] \<and>
   ascii ''album'' \<noteq> [] \<and>
   fst (GenerateFolderName (stub_env ok_reply (answer (ascii ''Report''))) cfg_on (ascii ''hi'')
         (ascii ''album'')) = Inr (ascii ''Report'', None) \<and>
   ascii ''Report'' \<noteq> []"
proof -
  let ?e = "stub_env ok_reply (answer (ascii ''Report''))"
  have a: "ascii ''notes.txt'' \<noteq> []" "ascii ''album'' \<noteq> []" by (simp_all add: ascii_def)
  have f: "fst (GenerateFileName ?e cfg_on (ascii ''hi'') (ascii ''notes.txt''))
             = Inr (ascii ''Report.txt'', None)"
    by (simp add: gen_simps stub_simps clean_simps ext_simps)
  have d: "fst (GenerateFolderName ?e cfg_on (ascii ''hi'') (ascii ''album''))
             = Inr (ascii ''Report'', None)"
    by (simp add: gen_simps stub_simps clean_simps ext_simps)
  from returned_name_nonempty [of "ascii ''notes.txt''" ?e cfg_on "ascii ''hi''"
      "ascii ''Report.txt''" None "ascii ''album''" "ascii ''Report''" None] a f d
  show ?thesis by blast
qed

section \<open>The extension\<close>

lemma from_last_dot_no_dot: "46 \<notin> set s \<Longrightarrow> from_last_dot s = []"
  by (induction s) auto

lemma from_last_dot_append: "46 \<notin> set ys \<Longrightarrow> from_last_dot (xs @ 46 # ys) = 46 # ys"
  by (induction xs) auto

lemma takeWhile_rev_all:
  "\<forall>c\<in>set ys. P c \<Longrightarrow> takeWhile P (rev ys @ zs) = rev ys @ takeWhile P zs"
  by (rule takeWhile_append2) simp

lemma final_element_no_sep: "\<forall>c\<in>set s. \<not> IsPathSeparator c \<Longrightarrow> final_element s = s"
proof -
  assume "\<forall>c\<in>set s. \<not> IsPathSeparator c"
  then have "takeWhile (\<lambda>c. \<not> IsPathSeparator c) (rev s) = rev s"
    by simp
  then show ?thesis unfolding final_element_def by (simp only: rev_rev_ident)
qed

lemma final_element_append:
  "\<forall>c\<in>set ys. \<not> IsPathSeparator c \<Longrightarrow> final_element (xs @ ys) = final_element xs @ ys"
  using takeWhile_rev_all [of ys "\<lambda>c. \<not> IsPathSeparator c" "rev xs"]
  by (simp add: final_element_def)

lemma final_element_sep:
  "IsPathSeparator x \<Longrightarrow> \<forall>c\<in>set ys. \<not> IsPathSeparator c \<Longrightarrow> final_element (xs @ x # ys) = ys"
  using takeWhile_rev_all [of ys "\<lambda>c. \<not> IsPathSeparator c" "x # rev xs"]
  by (simp add: final_element_def)

text \<open>
  The scan of \<open>filepath.Ext\<close>, stated for any position: below the part \<open>ys\<close> already passed,
  which holds neither a dot nor a separator.
\<close>

lemma Ext_loop_scan:
  "\<forall>c\<in>set ys. c \<noteq> 46 \<and> \<not> IsPathSeparator c \<Longrightarrow>
   Ext_loop (xs @ ys) (length xs) = from_last_dot (final_element (xs @ ys))"
proof (induction xs arbitrary: ys rule: rev_induct)
  case Nil
  then have "46 \<notin> set ys" by auto
  with Nil show ?case
    by (simp add: final_element_no_sep from_last_dot_no_dot)
next
  case (snoc x xs)
  have nth: "(xs @ x # ys) ! length xs = x" by simp
  from snoc.prems have no_dot: "46 \<notin> set ys" by auto
  show ?case
  proof (cases "IsPathSeparator x")
    case True
    with snoc.prems no_dot show ?thesis
      by (simp add: nth final_element_sep from_last_dot_no_dot)
  next
    case False
    show ?thesis
    proof (cases "x = 46")
      case True
      have "final_element (xs @ x # ys) = final_element xs @ x # ys"
        using final_element_append [of "x # ys" xs] False snoc.prems by simp
      then show ?thesis using True False no_dot
        by (simp add: nth from_last_dot_append)
    next
      case neq: False
      have "Ext_loop (xs @ (x # ys)) (length xs) = from_last_dot (final_element (xs @ (x # ys)))"
        using snoc.IH [of "x # ys"] snoc.prems False neq by simp
      with False neq show ?thesis by (simp add: nth)
    qed
  qed
qed

lemma Ext_final_element: "Ext path = from_last_dot (final_element path)"
  using Ext_loop_scan [of "[]" path] by (simp add: Ext_def)

lemma Ext_without_separator:
  "\<forall>c\<in>set name. \<not> IsPathSeparator c \<Longrightarrow> Ext name = from_last_dot name"
  by (simp add: Ext_final_element final_element_no_sep)

text \<open>
  C6: when the remote call succeeds and the sanitized candidate is not empty,
  \<open>GenerateFileName\<close> appends the original extension exactly when the candidate does not
  already end with it, and returns no error. The original extension is the text from the
  last dot of the final path element of the original name, the dot included (for a name
  without a separator: from the last dot of the name), and empty when there is no such
  dot. For the candidate \<open>Report\<close> and the original name \<open>notes.txt\<close> the result is
  \<open>Report.txt\<close>.
\<close>

theorem extension_appended_unless_present:
  assumes "Enable cfg" and "messageText \<noteq> []"
    and "fst (callAI e cfg (buildPrompt e cfg messageText
               (TrimSuffix originalFileName (Ext originalFileName)))) = Inr newName"
    and "cleanFileName (spare_cap e) newName = Inr cleanName" and "cleanName \<noteq> []"
  shows "Ext originalFileName = from_last_dot (final_element originalFileName) \<and>
         fst (GenerateFileName e cfg messageText originalFileName) =
           Inr (if HasSuffix cleanName (from_last_dot (final_element originalFileName))
                then cleanName
                else cleanName @ from_last_dot (final_element originalFileName), None)"
proof -
  have ext: "Ext originalFileName = from_last_dot (final_element originalFileName)"
    by (rule Ext_final_element)
  have "fst (GenerateFileName e cfg messageText originalFileName) =
          Inr (if HasSuffix cleanName (Ext originalFileName)
               then cleanName else cleanName @ Ext originalFileName, None)"
    using assms by (auto simp: GenerateFileName_def Let_def split: prod.splits sum.splits)
  with ext show ?thesis by simp
qed

theorem extension_appended_unless_present_witness:
  "Enable cfg_on \<and> ascii ''hi'' \<noteq> [] \<and>
   fst (callAI (stub_env ok_reply (answer (ascii ''Report''))) cfg_on
         (buildPrompt (stub_env ok_reply (answer (ascii ''Report''))) cfg_on (ascii ''hi'')
            (TrimSuffix (ascii ''notes.txt'') (Ext (ascii ''notes.txt''))))) = Inr (ascii ''Report'') \<and>
   cleanFileName (spare_cap (stub_env ok_reply (answer (ascii ''Report'')))) (ascii ''Report'')
     = Inr (ascii ''Report'') \<and>
   ascii ''Report'' \<noteq> [] \<and>
   Ext (ascii ''notes.txt'') = ascii ''.txt'' \<and>
   fst (GenerateFileName (stub_env ok_reply (answer (ascii ''Report''))) cfg_on (ascii ''hi'')
         (ascii ''notes.txt'')) = Inr (ascii ''Report.txt'', None)"
proof -
  let ?e = "stub_env ok_reply (answer (ascii ''Report''))"
  have h1: "Enable cfg_on" by (simp add: cfg_on_def)
  have h2: "ascii ''hi'' \<noteq> []" by (simp add: ascii_def)
  have h3: "fst (callAI ?e cfg_on (buildPrompt ?e cfg_on (ascii ''hi'')
               (TrimSuffix (ascii ''notes.txt'') (Ext (ascii ''notes.txt''))))) = Inr (ascii ''Report'')"
    by (simp add: gen_simps stub_simps clean_simps)
  have h4: "cleanFileName (spare_cap ?e) (ascii ''Report'') = Inr (ascii ''Report'')"
    by (simp add: clean_simps)
  have h5: "ascii ''Report'' \<noteq> []" by (simp add: ascii_def)
  have d: "from_last_dot (final_element (ascii ''notes.txt'')) = ascii ''.txt''"
    by (simp add: final_element_def IsPathSeparator_def ascii_def)
  have s: "\<not> HasSuffix (ascii ''Report'') (ascii ''.txt'')"
    "ascii ''Report'' @ ascii ''.txt'' = ascii ''Report.txt''"
    by (simp_all add: HasSuffix_def ascii_def)
  from extension_appended_unless_present [OF h1 h2 h3 h4 h5]
  show ?thesis using h1 h2 h3 h4 h5 d s by simp
qed

section \<open>The shared instance\<close>

lemma NewRenameService_global:
  "NewRenameService addr_Cfg_AIRename g =
     Inr (length (services g),
          g\<lparr>services := services g @
               [\<lparr>config = addr_Cfg_AIRename, client_Timeout = Timeout (Cfg_AIRename g)\<rparr>]\<rparr>)"
  by (simp add: NewRenameService_def)

lemma InitRenameService_result:
  "InitRenameService cfg g = Inr g1 \<Longrightarrow>
   deref g cfg \<noteq> None \<and>
   g1 = g\<lparr>services := services g @
                 [\<lparr>config = cfg, client_Timeout = Timeout (the (deref g cfg))\<rparr>],
          renameService := Some (length (services g))\<rparr>"
  by (auto simp: InitRenameService_def NewRenameService_def split: option.splits)

lemma InitRenameService_panics_iff:
  "InitRenameService cfg g = Inl p \<longleftrightarrow> p = NilPointerDereference \<and> deref g cfg = None"
  by (auto simp: InitRenameService_def NewRenameService_def split: option.splits)

lemma GetRenameService_returns: "\<exists>v. GetRenameService h = Inr v"
  by (simp add: GetRenameService_def NewRenameService_global Let_def)

lemma GetRenameService_stable:
  "GetRenameService h = Inr (s, h') \<Longrightarrow>
   once_done h' \<and> renameService h' = s \<and> GetRenameService h' = Inr (s, h')"
  by (auto simp: GetRenameService_def NewRenameService_global Let_def split: if_splits)

text \<open>
  C10, as stated, fails in its last part: after \<open>GetRenameService\<close> has executed, a call of
  \<open>InitRenameService\<close> still replaces the shared instance, and the \<open>GetRenameService\<close> call
  that follows returns the injected service (index 1, built from the configuration at
  address 0) and not the instance returned before (index 0).
\<close>

theorem get_init_get_returns_other_instance:
  "GetRenameService fresh_globals = Inr (Some 0, got_globals) \<and>
   InitRenameService (addr_cfg 0) got_globals = Inr reinjected_globals \<and>
   GetRenameService reinjected_globals = Inr (Some 1, reinjected_globals) \<and>
   config (services reinjected_globals ! 1) = addr_cfg 0 \<and>
   config (services reinjected_globals ! 0) = addr_Cfg_AIRename"
  by (simp add: GetRenameService_def InitRenameService_def NewRenameService_def
      fresh_globals_def got_globals_def reinjected_globals_def cfg_on_def cfg_off_def Let_def)

text \<open>
  C10, amended: \<open>InitRenameService\<close> sets the shared instance to a newly allocated service
  on the given configuration and leaves the guard as it was; it returns unless the
  configuration pointer is nil or dangling. When the guard is not yet done, the
  \<open>GetRenameService\<close> call that follows builds a new service from the global configuration
  and returns it in place of the injected one, which stays allocated and is no longer the
  shared instance. When the guard is done, the \<open>GetRenameService\<close> call that follows returns
  the injected service and changes nothing. \<open>GetRenameService\<close> always returns; after any
  call of it the guard is done, and further calls return the same instance and leave the
  state unchanged for as long as \<open>InitRenameService\<close> is not called.
\<close>

theorem shared_instance_lifecycle:
  "(InitRenameService cfg g = Inl p \<longleftrightarrow> p = NilPointerDereference \<and> deref g cfg = None)
 \<and> (InitRenameService cfg g = Inr g1 \<longrightarrow> once_done g1 = once_done g \<and>
      (\<exists>injected. injected = length (services g) \<and> renameService g1 = Some injected \<and>
         injected < length (services g1) \<and> config (services g1 ! injected) = cfg \<and>
         take injected (services g1) = services g \<and>
         (\<not> once_done g \<longrightarrow>
            (\<exists>built g2. GetRenameService g1 = Inr (Some built, g2) \<and> built \<noteq> injected \<and>
               renameService g2 = Some built \<and> once_done g2 \<and>
               services g2 ! built =
                 \<lparr>config = addr_Cfg_AIRename, client_Timeout = Timeout (Cfg_AIRename g)\<rparr> \<and>
               services g2 ! injected = services g1 ! injected)) \<and>
         (once_done g \<longrightarrow> GetRenameService g1 = Inr (Some injected, g1))))
 \<and> (\<exists>v. GetRenameService h = Inr v)
 \<and> (GetRenameService h = Inr (s, h') \<longrightarrow>
      once_done h' \<and> renameService h' = s \<and> GetRenameService h' = Inr (s, h'))"
proof (intro conjI impI)
  show "InitRenameService cfg g = Inl p \<longleftrightarrow> p = NilPointerDereference \<and> deref g cfg = None"
    by (rule InitRenameService_panics_iff)
next
  assume init: "InitRenameService cfg g = Inr g1"
  from InitRenameService_result [OF init] have
    g1: "g1 = g\<lparr>services := services g @
                   [\<lparr>config = cfg, client_Timeout = Timeout (the (deref g cfg))\<rparr>],
                 renameService := Some (length (services g))\<rparr>"
    by simp
  let ?injected = "length (services g)"
  let ?built = "Suc (length (services g))"
  let ?g2 = "g1\<lparr>services := services g1 @
                 [\<lparr>config = addr_Cfg_AIRename, client_Timeout = Timeout (Cfg_AIRename g)\<rparr>],
               renameService := Some ?built, once_done := True\<rparr>"
  from g1 show "once_done g1 = once_done g" by simp
  from g1 have a: "renameService g1 = Some ?injected" by simp
  from g1 have b: "?injected < length (services g1)" by simp
  from g1 have c: "config (services g1 ! ?injected) = cfg" by simp
  from g1 have t: "take ?injected (services g1) = services g" by simp
  have d: "\<exists>built g2. GetRenameService g1 = Inr (Some built, g2) \<and> built \<noteq> ?injected \<and>
             renameService g2 = Some built \<and> once_done g2 \<and>
             services g2 ! built =
               \<lparr>config = addr_Cfg_AIRename, client_Timeout = Timeout (Cfg_AIRename g)\<rparr> \<and>
             services g2 ! ?injected = services g1 ! ?injected"
    if fresh: "\<not> once_done g"
  proof -
    from g1 fresh have get: "GetRenameService g1 = Inr (Some ?built, ?g2)"
      by (simp add: GetRenameService_def NewRenameService_global Let_def)
    from g1 have nth: "services ?g2 ! ?built =
        \<lparr>config = addr_Cfg_AIRename, client_Timeout = Timeout (Cfg_AIRename g)\<rparr>"
      by (simp add: nth_append)
    from g1 have kept: "services ?g2 ! ?injected = services g1 ! ?injected"
      by (simp add: nth_append)
    have "GetRenameService g1 = Inr (Some ?built, ?g2) \<and> ?built \<noteq> ?injected \<and>
             renameService ?g2 = Some ?built \<and> once_done ?g2 \<and>
             services ?g2 ! ?built =
               \<lparr>config = addr_Cfg_AIRename, client_Timeout = Timeout (Cfg_AIRename g)\<rparr> \<and>
             services ?g2 ! ?injected = services g1 ! ?injected"
      using get nth kept by simp
    then show ?thesis by blast
  qed
  have e: "GetRenameService g1 = Inr (Some ?injected, g1)" if "once_done g"
    using that g1 by (simp add: GetRenameService_def)
  from a b c t d e
  show "\<exists>injected. injected = length (services g) \<and> renameService g1 = Some injected \<and>
         injected < length (services g1) \<and> config (services g1 ! injected) = cfg \<and>
         take injected (services g1) = services g \<and>
         (\<not> once_done g \<longrightarrow>
            (\<exists>built g2. GetRenameService g1 = Inr (Some built, g2) \<and> built \<noteq> injected \<and>
               renameService g2 = Some built \<and> once_done g2 \<and>
               services g2 ! built =
                 \<lparr>config = addr_Cfg_AIRename, client_Timeout = Timeout (Cfg_AIRename g)\<rparr> \<and>
               services g2 ! injected = services g1 ! injected)) \<and>
         (once_done g \<longrightarrow> GetRenameService g1 = Inr (Some injected, g1))"
    by blast
next
  show "\<exists>v. GetRenameService h = Inr v"
    by (rule GetRenameService_returns)
next
  assume get: "GetRenameService h = Inr (s, h')"
  from GetRenameService_stable [OF get]
  show "once_done h'" and "renameService h' = s" and "GetRenameService h' = Inr (s, h')"
    by simp_all
qed

theorem shared_instance_lifecycle_witness:
  "InitRenameService (addr_cfg 0) fresh_globals = Inr injected_globals \<and>
   \<not> once_done fresh_globals \<and> \<not> once_done injected_globals \<and>
   renameService injected_globals = Some 0 \<and>
   GetRenameService injected_globals = Inr (Some 1, rebuilt_globals) \<and>
   config (services rebuilt_globals ! 1) = addr_Cfg_AIRename \<and>
   once_done rebuilt_globals \<and>
   GetRenameService rebuilt_globals = Inr (Some 1, rebuilt_globals) \<and>
   once_done got_globals \<and>
   InitRenameService (addr_cfg 0) got_globals = Inr reinjected_globals \<and>
   once_done reinjected_globals \<and>
   GetRenameService reinjected_globals = Inr (Some 1, reinjected_globals) \<and>
   InitRenameService nil_cfg fresh_globals = Inl NilPointerDereference"
proof -
  have init: "InitRenameService (addr_cfg 0) fresh_globals = Inr injected_globals"
    by (simp add: InitRenameService_def NewRenameService_def fresh_globals_def
        injected_globals_def cfg_off_def cfg_on_def)
  have fresh: "\<not> once_done fresh_globals" by (simp add: fresh_globals_def)
  have get: "GetRenameService injected_globals = Inr (Some 1, rebuilt_globals)"
    by (simp add: GetRenameService_def NewRenameService_def fresh_globals_def
        injected_globals_def rebuilt_globals_def cfg_on_def Let_def)
  have cfg: "config (services rebuilt_globals ! 1) = addr_Cfg_AIRename"
    by (simp add: rebuilt_globals_def)
  have gd: "once_done got_globals" by (simp add: got_globals_def)
  have init': "InitRenameService (addr_cfg 0) got_globals = Inr reinjected_globals"
    by (simp add: InitRenameService_def NewRenameService_def fresh_globals_def
        got_globals_def reinjected_globals_def cfg_off_def cfg_on_def)
  have len: "length (services got_globals) = 1" by (simp add: got_globals_def)
  have nil: "deref fresh_globals nil_cfg = None" by simp
  from shared_instance_lifecycle
         [where cfg = "addr_cfg 0" and g = fresh_globals and ?g1.0 = injected_globals
            and h = injected_globals and s = "Some 1" and h' = rebuilt_globals]
       init fresh get
  have 1: "once_done injected_globals = once_done fresh_globals"
    "once_done rebuilt_globals"
    "GetRenameService rebuilt_globals = Inr (Some 1, rebuilt_globals)"
    by simp_all
  from shared_instance_lifecycle
         [where cfg = "addr_cfg 0" and g = got_globals and ?g1.0 = reinjected_globals]
       init' gd len
  have 2: "once_done reinjected_globals"
    "GetRenameService reinjected_globals = Inr (Some 1, reinjected_globals)"
    by simp_all
  from shared_instance_lifecycle
         [where cfg = nil_cfg and g = fresh_globals and p = NilPointerDereference] nil
  have 3: "InitRenameService nil_cfg fresh_globals = Inl NilPointerDereference"
    by simp
  from init fresh get cfg gd init' 1 2 3 show ?thesis
    by (simp add: injected_globals_def)
qed

section \<open>Trimming\<close>

lemma TrimRightFunc_prefix: "TrimRightFunc s f @ rev (takeWhile f (rev s)) = s"
proof -
  have "rev (dropWhile f (rev s)) @ rev (takeWhile f (rev s))
          = rev (takeWhile f (rev s) @ dropWhile f (rev s))"
    by (simp only: rev_append)
  also have "\<dots> = s"
    by (simp only: takeWhile_dropWhile_id rev_rev_ident)
  finally show ?thesis by (simp only: TrimRightFunc_def)
qed

lemma TrimFunc_infix:
  "takeWhile f s @ TrimFunc s f @ rev (takeWhile f (rev (dropWhile f s))) = s"
proof -
  have "TrimFunc s f @ rev (takeWhile f (rev (dropWhile f s))) = dropWhile f s"
    unfolding TrimFunc_def TrimLeftFunc_def by (rule TrimRightFunc_prefix)
  then show ?thesis by simp
qed

lemma set_TrimFunc: "c \<in> set (TrimFunc s f) \<Longrightarrow> c \<in> set s"
proof -
  assume "c \<in> set (TrimFunc s f)"
  then have "c \<in> set (takeWhile f s @ TrimFunc s f @ rev (takeWhile f (rev (dropWhile f s))))"
    by simp
  then show ?thesis by (simp only: TrimFunc_infix)
qed

lemma length_TrimFunc: "length (TrimFunc s f) \<le> length s"
proof -
  have "length (takeWhile f s @ TrimFunc s f @ rev (takeWhile f (rev (dropWhile f s)))) = length s"
    by (simp only: TrimFunc_infix)
  then show ?thesis by simp
qed

lemma TrimFunc_id: "s = [] \<or> (\<not> f (hd s) \<and> \<not> f (last s)) \<Longrightarrow> TrimFunc s f = s"
proof (cases "s = []")
  case True
  then show ?thesis by (simp add: TrimFunc_def TrimLeftFunc_def TrimRightFunc_def)
next
  case False
  assume "s = [] \<or> (\<not> f (hd s) \<and> \<not> f (last s))"
  with False have h: "\<not> f (hd s)" and l: "\<not> f (last s)" by auto
  from h have left: "dropWhile f s = s" by (simp add: dropWhile_eq_self_iff)
  from l False have "\<not> f (hd (rev s))" by (simp add: hd_rev)
  then have "dropWhile f (rev s) = rev s" by (simp add: dropWhile_eq_self_iff)
  with left show ?thesis by (simp add: TrimFunc_def TrimLeftFunc_def TrimRightFunc_def)
qed

lemma TrimFunc_hd: "TrimFunc s f \<noteq> [] \<Longrightarrow> \<not> f (hd (TrimFunc s f))"
proof -
  assume ne: "TrimFunc s f \<noteq> []"
  let ?t = "dropWhile f s"
  have pre: "TrimFunc s f @ rev (takeWhile f (rev ?t)) = ?t"
    unfolding TrimFunc_def TrimLeftFunc_def by (rule TrimRightFunc_prefix)
  with ne have "?t \<noteq> []" by (metis append_is_Nil_conv)
  then have "\<not> f (hd ?t)" by (rule hd_dropWhile)
  moreover from pre ne have "hd ?t = hd (TrimFunc s f)"
    by (metis hd_append2)
  ultimately show ?thesis by simp
qed

lemma TrimFunc_last: "TrimFunc s f \<noteq> [] \<Longrightarrow> \<not> f (last (TrimFunc s f))"
proof -
  assume ne: "TrimFunc s f \<noteq> []"
  let ?t = "dropWhile f s"
  from ne have d: "dropWhile f (rev ?t) \<noteq> []"
    by (simp add: TrimFunc_def TrimLeftFunc_def TrimRightFunc_def)
  then have "\<not> f (hd (dropWhile f (rev ?t)))" by (rule hd_dropWhile)
  moreover have "last (TrimFunc s f) = hd (dropWhile f (rev ?t))"
    by (simp add: TrimFunc_def TrimLeftFunc_def TrimRightFunc_def last_rev)
  ultimately show ?thesis by simp
qed

lemma TrimFunc_shorter:
  "s \<noteq> [] \<Longrightarrow> f (hd s) \<or> f (last s) \<Longrightarrow> length (TrimFunc s f) < length s"
proof -
  assume ne: "s \<noteq> []" and edge: "f (hd s) \<or> f (last s)"
  have "TrimFunc s f \<noteq> s"
  proof
    assume eq: "TrimFunc s f = s"
    with ne have "TrimFunc s f \<noteq> []" by simp
    from TrimFunc_hd [OF this] TrimFunc_last [OF this] eq edge show False by simp
  qed
  moreover have "TrimFunc s f = s" if len: "length (TrimFunc s f) = length s"
  proof -
    have "length (takeWhile f s) + length (TrimFunc s f)
        + length (takeWhile f (rev (dropWhile f s))) = length s"
      using arg_cong [OF TrimFunc_infix [of f s], of length] by simp
    with len have "takeWhile f s = []" and "takeWhile f (rev (dropWhile f s)) = []"
      by (simp_all del: takeWhile_eq_Nil_iff)
    with TrimFunc_infix [of f s] show ?thesis by (simp del: takeWhile_eq_Nil_iff)
  qed
  ultimately have "length (TrimFunc s f) \<noteq> length s" by blast
  with length_TrimFunc [of s f] show ?thesis by simp
qed

section \<open>The replacements\<close>

lemma ReplaceAllString_single:
  "ReplaceAllString cls s [u] = map (\<lambda>r. if cls r then u else r) s"
  by (induction s) (simp_all add: ReplaceAllString_def)

lemma length_ReplaceAllString_single: "length (ReplaceAllString cls s [u]) = length s"
  by (simp add: ReplaceAllString_single)

lemma ReplaceAllString_id: "\<forall>c\<in>set s. \<not> cls c \<Longrightarrow> ReplaceAllString cls s repl = s"
  by (induction s) (simp_all add: ReplaceAllString_def)

lemma ReplaceAllString_invalidChars:
  "c \<in> set (ReplaceAllString invalidChars s [underscore]) \<Longrightarrow> \<not> invalidChars c"
  by (auto simp: ReplaceAllString_single invalidChars_def underscore_def split: if_splits)

lemma set_ReplaceAllString_plus:
  "c \<in> set (ReplaceAllString_plus cls s [u]) \<Longrightarrow> c = u \<or> (c \<in> set s \<and> \<not> cls c)"
proof (induction cls s "[u]" arbitrary: c rule: ReplaceAllString_plus.induct)
  case (1 cls)
  then show ?case by simp
next
  case (2 cls r rs)
  show ?case
  proof (cases "cls r")
    case True
    with "2.prems" have "c = u \<or> c \<in> set (ReplaceAllString_plus cls (dropWhile cls rs) [u])"
      by auto
    with "2.hyps"(1) [OF True] show ?thesis
      by (auto dest: set_dropWhileD)
  next
    case False
    with "2.prems" have "c = r \<or> c \<in> set (ReplaceAllString_plus cls rs [u])"
      by auto
    with "2.hyps"(2) [OF False] False show ?thesis by auto
  qed
qed

lemma length_ReplaceAllString_plus: "length (ReplaceAllString_plus cls s [u]) \<le> length s"
proof (induction cls s "[u]" rule: ReplaceAllString_plus.induct)
  case (1 cls)
  then show ?case by simp
next
  case (2 cls r rs)
  show ?case
  proof (cases "cls r")
    case True
    from "2.hyps"(1) [OF True] length_dropWhile_le [of cls rs] True
    show ?thesis by simp
  next
    case False
    from "2.hyps"(2) [OF False] False show ?thesis by simp
  qed
qed

lemma ReplaceAllString_plus_hd:
  "s \<noteq> [] \<Longrightarrow> \<not> cls (hd s) \<Longrightarrow>
   ReplaceAllString_plus cls s repl \<noteq> [] \<and> hd (ReplaceAllString_plus cls s repl) = hd s"
  by (cases s) simp_all

lemma ReplaceAllString_plus_collapsed:
  "no_adjacent_underscores (ReplaceAllString_plus multiSpace s [underscore])"
proof (induction multiSpace s "[underscore]" rule: ReplaceAllString_plus.induct)
  case 1
  then show ?case by (simp add: no_adjacent_underscores_def)
next
  case (2 r rs)
  show ?case
  proof (cases "multiSpace r")
    case True
    let ?rest = "dropWhile multiSpace rs"
    have ih: "no_adjacent_underscores (ReplaceAllString_plus multiSpace ?rest [underscore])"
      by (rule "2.hyps"(1) [OF True])
    have "ReplaceAllString_plus multiSpace ?rest [underscore] = [] \<or>
          hd (ReplaceAllString_plus multiSpace ?rest [underscore]) \<noteq> underscore"
    proof (cases "?rest = []")
      case True
      then show ?thesis by (simp del: dropWhile_eq_Nil_conv)
    next
      case False
      then have nm: "\<not> multiSpace (hd ?rest)" by (rule hd_dropWhile)
      from ReplaceAllString_plus_hd [of ?rest multiSpace "[underscore]"] False nm
      have "hd (ReplaceAllString_plus multiSpace ?rest [underscore]) = hd ?rest" by blast
      with nm show ?thesis by (auto simp: multiSpace_def)
    qed
    with ih True show ?thesis
      by (auto simp: no_adjacent_underscores_def successively_Cons)
  next
    case False
    then have "r \<noteq> underscore" by (auto simp: multiSpace_def)
    with "2.hyps"(2) [OF False] False show ?thesis
      by (auto simp: no_adjacent_underscores_def successively_Cons)
  qed
qed

lemma ReplaceAllString_plus_id:
  "\<forall>c\<in>set s. multiSpace c \<longrightarrow> c = underscore \<Longrightarrow> no_adjacent_underscores s \<Longrightarrow>
   ReplaceAllString_plus multiSpace s [underscore] = s"
proof (induction s)
  case Nil
  then show ?case by simp
next
  case (Cons r rs)
  from Cons.prems(2) have adj: "no_adjacent_underscores rs"
    by (auto simp: no_adjacent_underscores_def successively_Cons)
  from Cons.prems(1) have chars: "\<forall>c\<in>set rs. multiSpace c \<longrightarrow> c = underscore" by simp
  note ih = Cons.IH [OF chars adj]
  show ?case
  proof (cases "multiSpace r")
    case True
    with Cons.prems(1) have r: "r = underscore" by simp
    have "dropWhile multiSpace rs = rs"
    proof (cases rs)
      case Nil
      then show ?thesis by simp
    next
      case (Cons x xs)
      with Cons.prems(2) r have "x \<noteq> underscore"
        by (auto simp: no_adjacent_underscores_def)
      with chars Cons have "\<not> multiSpace x" by auto
      with Cons show ?thesis by simp
    qed
    with True r ih show ?thesis by simp
  next
    case False
    with ih show ?thesis by simp
  qed
qed

lemma no_adjacent_underscores_infix:
  "no_adjacent_underscores (xs @ ys @ zs) \<Longrightarrow> no_adjacent_underscores ys"
  by (auto simp: no_adjacent_underscores_def successively_append_iff)

lemma no_adjacent_underscores_take:
  "no_adjacent_underscores s \<Longrightarrow> no_adjacent_underscores (take n s)"
  using no_adjacent_underscores_infix [of "[]" "take n s" "drop n s"] by simp

lemma no_adjacent_underscores_TrimFunc:
  "no_adjacent_underscores s \<Longrightarrow> no_adjacent_underscores (TrimFunc s f)"
  using no_adjacent_underscores_infix
    [of "takeWhile f s" "TrimFunc s f" "rev (takeWhile f (rev (dropWhile f s)))"]
  by (simp only: TrimFunc_infix)

section \<open>The length check and the truncation\<close>

lemma cleanFileName_cleaned: "cleanFileName spare s = limit_to 50 spare (cleaned s)"
  by (simp add: cleanFileName_def cleaned_def limit_to_def Let_def)

lemma cleanFolderName_cleaned: "cleanFolderName spare s = limit_to 30 spare (cleaned s)"
  by (simp add: cleanFolderName_def cleaned_def limit_to_def Let_def)

lemma length_le_len: "length s \<le> len s"
  by (induction s) (simp_all add: len_def utf8_width_def)

lemma take_padded:
  "n \<le> length t + k \<Longrightarrow> take n (t @ replicate k z) = take n t @ replicate (n - length t) z"
proof -
  assume "n \<le> length t + k"
  then have "min (n - length t) k = n - length t" by simp
  then show ?thesis by simp
qed

lemma limit_to_Inr:
  "limit_to n spare t = Inr r \<Longrightarrow>
   (r = t \<and> len t \<le> n) \<or>
   (n < len t \<and> n \<le> length t + spare (length t) \<and>
    r = take n t @ replicate (n - length t) 0)"
  by (auto simp: limit_to_def slice_to_def to_runes_def take_padded split: if_splits)

lemma limit_to_panics_iff:
  "limit_to n spare t = Inl p \<longleftrightarrow>
   p = SliceBoundsOutOfRange \<and> n < len t \<and> length t + spare (length t) < n"
  by (auto simp: limit_to_def slice_to_def to_runes_def split: if_splits)

lemma limit_to_short: "len t \<le> n \<Longrightarrow> limit_to n spare t = Inr t"
  by (simp add: limit_to_def)

lemma limit_to_long: "n < length t \<Longrightarrow> limit_to n spare t = Inr (take n t)"
  using length_le_len [of t] by (simp add: limit_to_def slice_to_def to_runes_def)

lemma limit_to_padded:
  "n < len t \<Longrightarrow> length t < n \<Longrightarrow> n \<le> length t + spare (length t) \<Longrightarrow>
   limit_to n spare t = Inr (t @ replicate (n - length t) 0)"
  by (simp add: limit_to_def slice_to_def to_runes_def take_padded)

lemma limit_to_fixed: "limit_to n spare t = Inr r \<Longrightarrow> limit_to n spare r = Inr r"
proof -
  assume "limit_to n spare t = Inr r"
  from limit_to_Inr [OF this] show ?thesis
  proof
    assume "r = t \<and> len t \<le> n"
    then show ?thesis by (simp add: limit_to_def)
  next
    assume "n < len t \<and> n \<le> length t + spare (length t) \<and>
      r = take n t @ replicate (n - length t) 0"
    then have "length r = n" by auto
    then show ?thesis by (simp add: limit_to_def slice_to_def to_runes_def)
  qed
qed

section \<open>The cleaned form\<close>

lemma cleaned_chars:
  assumes "c \<in> set (cleaned s)"
  shows "\<not> invalidChars c \<and> \<not> re_space c"
proof -
  let ?y = "ReplaceAllString invalidChars (TrimSpace (Trim s [34, 39, 96])) [underscore]"
  from assms have "c \<in> set (ReplaceAllString_plus multiSpace ?y [underscore])"
    unfolding cleaned_def Trim_def by (rule set_TrimFunc)
  from set_ReplaceAllString_plus [OF this]
  have "c = underscore \<or> (c \<in> set ?y \<and> \<not> multiSpace c)" .
  then show ?thesis
  proof
    assume "c = underscore"
    then show ?thesis by (simp add: underscore_def invalidChars_def re_space_def)
  next
    assume h: "c \<in> set ?y \<and> \<not> multiSpace c"
    then have "c \<in> set ?y" by simp
    then have "\<not> invalidChars c" by (rule ReplaceAllString_invalidChars)
    with h show ?thesis by (simp add: multiSpace_def)
  qed
qed

lemma cleaned_collapsed: "no_adjacent_underscores (cleaned s)"
  unfolding cleaned_def Trim_def
  by (rule no_adjacent_underscores_TrimFunc) (rule ReplaceAllString_plus_collapsed)

lemma cleaned_ends:
  "cleaned s \<noteq> [] \<Longrightarrow> hd (cleaned s) \<noteq> underscore \<and> last (cleaned s) \<noteq> underscore"
  unfolding cleaned_def Trim_def
  using TrimFunc_hd [of _ "\<lambda>r. r \<in> set [underscore]"] TrimFunc_last [of _ "\<lambda>r. r \<in> set [underscore]"]
  by simp

text \<open>A name that the five steps leave as it is.\<close>

lemma cleaned_stable:
  assumes chars: "\<forall>c\<in>set r. \<not> invalidChars c \<and> \<not> re_space c"
    and adj: "no_adjacent_underscores r"
    and ends: "clean_ends r"
  shows "cleaned r = r"
proof -
  from ends have q: "r = [] \<or> (\<not> hd r \<in> set [34, 39, 96] \<and> \<not> last r \<in> set [34, 39, 96])"
    and sp: "r = [] \<or> (\<not> IsSpace (hd r) \<and> \<not> IsSpace (last r))"
    and us: "r = [] \<or> (\<not> hd r \<in> set [underscore] \<and> \<not> last r \<in> set [underscore])"
    by (auto simp: clean_ends_def trimmed_char_def)
  have 1: "Trim r [34, 39, 96] = r"
    unfolding Trim_def using q by (rule TrimFunc_id)
  have 2: "TrimSpace r = r"
    unfolding TrimSpace_def using sp by (rule TrimFunc_id)
  from chars have 3: "ReplaceAllString invalidChars r [underscore] = r"
    by (simp add: ReplaceAllString_id)
  from chars have "\<forall>c\<in>set r. multiSpace c \<longrightarrow> c = underscore"
    by (simp add: multiSpace_def)
  from ReplaceAllString_plus_id [OF this adj]
  have 4: "ReplaceAllString_plus multiSpace r [underscore] = r" .
  have 5: "Trim r [underscore] = r"
    unfolding Trim_def using us by (rule TrimFunc_id)
  show ?thesis by (simp add: cleaned_def 1 2 3 4 5)
qed

text \<open>A name with a trimmed character at an end gets shorter.\<close>

lemma cleaned_shorter:
  assumes chars: "\<forall>c\<in>set r. \<not> invalidChars c \<and> \<not> re_space c"
    and adj: "no_adjacent_underscores r"
    and ends: "\<not> clean_ends r"
  shows "length (cleaned r) < length r"
proof -
  from ends have ne: "r \<noteq> []" and edge: "trimmed_char (hd r) \<or> trimmed_char (last r)"
    by (auto simp: clean_ends_def)
  let ?q = "\<lambda>c. c \<in> set [34, 39, 96]"
  let ?u = "\<lambda>c. c \<in> set [underscore]"
  let ?a = "Trim r [34, 39, 96]"
  let ?b = "TrimSpace ?a"
  let ?c = "ReplaceAllString invalidChars ?b [underscore]"
  let ?d = "ReplaceAllString_plus multiSpace ?c [underscore]"
  have "length (cleaned r) \<le> length ?d"
    unfolding cleaned_def Trim_def by (rule length_TrimFunc)
  also have "\<dots> \<le> length ?c" by (rule length_ReplaceAllString_plus)
  also have "\<dots> = length ?b" by (rule length_ReplaceAllString_single)
  finally have chain1: "length (cleaned r) \<le> length ?b" .
  have chain2: "length ?b \<le> length ?a"
    unfolding TrimSpace_def by (rule length_TrimFunc)
  show ?thesis
  proof (cases "?q (hd r) \<or> ?q (last r)")
    case True
    from TrimFunc_shorter [OF ne, of ?q] True have "length ?a < length r"
      by (simp add: Trim_def)
    with chain1 chain2 show ?thesis by linarith
  next
    case noq: False
    then have a: "?a = r" unfolding Trim_def by (intro TrimFunc_id) simp
    show ?thesis
    proof (cases "IsSpace (hd r) \<or> IsSpace (last r)")
      case True
      from TrimFunc_shorter [OF ne, of IsSpace] True have "length (TrimSpace r) < length r"
        by (simp add: TrimSpace_def)
      with chain1 a show ?thesis by simp
    next
      case nosp: False
      then have b: "TrimSpace r = r" unfolding TrimSpace_def by (intro TrimFunc_id) simp
      from chars have c: "ReplaceAllString invalidChars r [underscore] = r"
        by (simp add: ReplaceAllString_id)
      from chars have "\<forall>c\<in>set r. multiSpace c \<longrightarrow> c = underscore"
        by (simp add: multiSpace_def)
      from ReplaceAllString_plus_id [OF this adj]
      have d: "ReplaceAllString_plus multiSpace r [underscore] = r" .
      from edge noq nosp have "?u (hd r) \<or> ?u (last r)"
        by (auto simp: trimmed_char_def)
      from TrimFunc_shorter [OF ne, of ?u] this have "length (Trim r [underscore]) < length r"
        by (simp add: Trim_def)
      then show ?thesis by (simp add: cleaned_def a b c d)
    qed
  qed
qed

section \<open>Zero runes\<close>

text \<open>No step removes or adds a zero rune: the cleaned form has as many as the name.\<close>

lemma count_takeWhile: "\<not> f c \<Longrightarrow> count_list (takeWhile f s) c = 0"
  by (induction s) auto

lemma count_TrimFunc: "\<not> f c \<Longrightarrow> count_list (TrimFunc s f) c = count_list s c"
proof -
  assume nf: "\<not> f c"
  have "count_list s c =
      count_list (takeWhile f s @ TrimFunc s f @ rev (takeWhile f (rev (dropWhile f s)))) c"
    by (simp only: TrimFunc_infix)
  with nf show ?thesis by (simp add: count_takeWhile)
qed

lemma count_dropWhile: "\<not> f c \<Longrightarrow> count_list (dropWhile f s) c = count_list s c"
  by (induction s) auto

lemma count_ReplaceAllString:
  "\<not> cls c \<Longrightarrow> c \<noteq> u \<Longrightarrow> count_list (ReplaceAllString cls s [u]) c = count_list s c"
  by (induction s) (auto simp: ReplaceAllString_def)

lemma count_ReplaceAllString_plus:
  "\<not> cls c \<Longrightarrow> c \<noteq> u \<Longrightarrow> count_list (ReplaceAllString_plus cls s [u]) c = count_list s c"
proof (induction cls s "[u]" rule: ReplaceAllString_plus.induct)
  case (1 cls)
  then show ?case by simp
next
  case (2 cls r rs)
  show ?case
  proof (cases "cls r")
    case True
    with "2.prems" have "r \<noteq> c" by auto
    with "2.hyps"(1) [OF True "2.prems"] "2.prems" True show ?thesis
      by (simp add: count_dropWhile)
  next
    case False
    with "2.hyps"(2) [OF False "2.prems"] show ?thesis by simp
  qed
qed

lemma count_cleaned_zero: "count_list (cleaned s) 0 = count_list s 0"
proof -
  have z: "\<not> (0::nat) \<in> set [34, 39, 96]" "\<not> IsSpace 0" "\<not> invalidChars 0"
    "\<not> multiSpace 0" "(0::nat) \<noteq> underscore" "\<not> (0::nat) \<in> set [underscore]"
    by (simp_all add: IsSpace_def invalidChars_def multiSpace_def re_space_def underscore_def)
  let ?a = "TrimFunc s (\<lambda>r. r \<in> set [34, 39, 96])"
  let ?b = "TrimFunc ?a IsSpace"
  let ?c = "ReplaceAllString invalidChars ?b [underscore]"
  let ?d = "ReplaceAllString_plus multiSpace ?c [underscore]"
  have "count_list (TrimFunc ?d (\<lambda>r. r \<in> set [underscore])) 0 = count_list ?d 0"
    using z(6) by (rule count_TrimFunc)
  also have "\<dots> = count_list ?c 0"
    using z(4) z(5) by (rule count_ReplaceAllString_plus)
  also have "\<dots> = count_list ?b 0"
    using z(3) z(5) by (rule count_ReplaceAllString)
  also have "\<dots> = count_list ?a 0"
    using z(2) by (rule count_TrimFunc)
  also have "\<dots> = count_list s 0"
    using z(1) by (rule count_TrimFunc)
  finally show ?thesis
    by (simp only: cleaned_def Trim_def TrimSpace_def)
qed

section \<open>Where the truncation goes wrong\<close>

text \<open>
  The sanitizers panic exactly on the names whose cleaned form has more bytes than the
  limit and so few runes that even the capacity of the rune slice is below the limit.
  With more bytes than the limit, fewer runes than the limit and enough capacity they
  return the cleaned form padded with zero runes. In neither case is the cleaned form
  returned.
\<close>

lemma cleanFileName_panics_iff:
  "cleanFileName spare s = Inl p \<longleftrightarrow>
   p = SliceBoundsOutOfRange \<and> 50 < len (cleaned s) \<and>
   length (cleaned s) + spare (length (cleaned s)) < 50"
  by (simp add: cleanFileName_cleaned limit_to_panics_iff)

lemma cleanFolderName_panics_iff:
  "cleanFolderName spare s = Inl p \<longleftrightarrow>
   p = SliceBoundsOutOfRange \<and> 30 < len (cleaned s) \<and>
   length (cleaned s) + spare (length (cleaned s)) < 30"
  by (simp add: cleanFolderName_cleaned limit_to_panics_iff)

lemma cleanFileName_long:
  "50 < length (cleaned s) \<Longrightarrow> cleanFileName spare s = Inr (take 50 (cleaned s))"
  by (simp add: cleanFileName_cleaned limit_to_long)

lemma cleanFileName_short_bytes:
  "len (cleaned s) \<le> 50 \<Longrightarrow> cleanFileName spare s = Inr (cleaned s)"
  by (simp add: cleanFileName_cleaned limit_to_short)

lemma cleanFolderName_long:
  "30 < length (cleaned s) \<Longrightarrow> cleanFolderName spare s = Inr (take 30 (cleaned s))"
  by (simp add: cleanFolderName_cleaned limit_to_long)

lemma cleanFolderName_short_bytes:
  "len (cleaned s) \<le> 30 \<Longrightarrow> cleanFolderName spare s = Inr (cleaned s)"
  by (simp add: cleanFolderName_cleaned limit_to_short)

lemma limit_to_not_whole:
  assumes "n < len t" and "length t < n"
  shows "limit_to n spare t \<noteq> Inr t"
proof
  assume "limit_to n spare t = Inr t"
  from limit_to_Inr [OF this] assms(1)
  have "t = take n t @ replicate (n - length t) 0" by auto
  then have "length t = length (take n t @ replicate (n - length t) 0)" by simp
  with assms(2) show False by simp
qed

text \<open>
  C1: the claim is right and the code is wrong. A candidate of twenty CJK characters
  (U+4E2D, three bytes each) has 60 bytes and 20 runes: the byte length passes the check
  \<open>len(name) > 50\<close>, the slice \<open>runes[:50]\<close> is out of range for a capacity of 32 as for a
  capacity of 20, and \<open>cleanFileName\<close> and with it \<open>GenerateFileName\<close> panic.
\<close>

theorem sanitizer_panics_on_multibyte_candidate:
  "len (replicate 20 20013) = 60 \<and> length (replicate 20 (20013 :: rune)) = 20 \<and>
   cleanFileName buffer32 (replicate 20 20013) = Inl SliceBoundsOutOfRange \<and>
   cleanFileName (\<lambda>n. 0) (replicate 20 20013) = Inl SliceBoundsOutOfRange \<and>
   fst (GenerateFileName (stub_env ok_reply (answer (replicate 20 20013))) cfg_on (ascii ''hi'')
         (ascii ''notes.txt'')) = Inl SliceBoundsOutOfRange"
  by (simp add: gen_simps stub_simps clean_simps ext_simps replicate_numeral)

text \<open>
  C3: the claim is right and the code is wrong, by the same defect as C1. The name of
  twenty-six letters U+00E9 (two bytes each) is its own cleaned form and has 26 code
  points, at most 50, yet it is not returned, whatever the capacity: the length check
  counts its 52 bytes, and the slice of the runes panics or reaches into the zeroed
  spare capacity. Sixteen such letters do the same to \<open>cleanFolderName\<close>, which with a
  buffer of 32 runes returns them followed by fourteen zero runes.
\<close>

theorem short_multibyte_name_is_not_returned:
  "cleaned (replicate 26 233) = replicate 26 233 \<and>
   length (cleaned (replicate 26 233)) = 26 \<and>
   cleanFileName spare (replicate 26 233) \<noteq> Inr (cleaned (replicate 26 233)) \<and>
   cleanFileName buffer32 (replicate 26 233) = Inl SliceBoundsOutOfRange \<and>
   cleaned (replicate 16 233) = replicate 16 233 \<and>
   length (cleaned (replicate 16 233)) = 16 \<and>
   cleanFolderName spare (replicate 16 233) \<noteq> Inr (cleaned (replicate 16 233)) \<and>
   cleanFolderName buffer32 (replicate 16 233) = Inr (replicate 16 233 @ replicate 14 0)"
proof -
  have c26: "cleaned (replicate 26 233) = replicate 26 233"
    and c16: "cleaned (replicate 16 233) = replicate 16 233"
    by (simp_all add: cleaned_def clean_simps replicate_numeral)
  have l26: "len (replicate 26 233) = 52" and l16: "len (replicate 16 233) = 32"
    by (simp_all add: len_def utf8_width_def replicate_numeral)
  have "limit_to 50 spare (replicate 26 233) \<noteq> Inr (replicate 26 233)"
    by (rule limit_to_not_whole) (simp_all add: l26)
  then have n26: "cleanFileName spare (replicate 26 233) \<noteq> Inr (cleaned (replicate 26 233))"
    by (simp add: cleanFileName_cleaned c26)
  have "limit_to 30 spare (replicate 16 233) \<noteq> Inr (replicate 16 233)"
    by (rule limit_to_not_whole) (simp_all add: l16)
  then have n16: "cleanFolderName spare (replicate 16 233) \<noteq> Inr (cleaned (replicate 16 233))"
    by (simp add: cleanFolderName_cleaned c16)
  have p26: "cleanFileName buffer32 (replicate 26 233) = Inl SliceBoundsOutOfRange"
    by (simp add: cleanFileName_panics_iff c26 l26 buffer32_def roundupsize_def size_classes_def)
  have "limit_to 30 buffer32 (replicate 16 233) = Inr (replicate 16 233 @ replicate (30 - 16) 0)"
    using limit_to_padded [of 30 "replicate 16 233" buffer32]
    by (simp add: l16 buffer32_def roundupsize_def size_classes_def)
  then have p16: "cleanFolderName buffer32 (replicate 16 233)
      = Inr (replicate 16 233 @ replicate 14 0)"
    by (simp add: cleanFolderName_cleaned c16)
  from c26 c16 n26 n16 p26 p16 show ?thesis by simp
qed

section \<open>What the sanitizer returns\<close>

lemma no_adjacent_underscores_padded:
  assumes "no_adjacent_underscores xs"
  shows "no_adjacent_underscores (xs @ replicate j 0)"
proof -
  have z: "successively (\<lambda>a b. \<not> (a = underscore \<and> b = underscore)) (replicate j (0::nat))"
    by (induction j) (simp_all add: successively_Cons underscore_def)
  have "hd (replicate j (0::nat)) \<noteq> underscore" if "replicate j (0::nat) \<noteq> []"
    using that by (cases j) (simp_all add: underscore_def)
  with assms z show ?thesis
    by (auto simp: no_adjacent_underscores_def successively_append_iff)
qed

lemma limit_to_cleaned_props:
  assumes "limit_to n spare (cleaned s) = Inr r"
  shows "(\<forall>c\<in>set r. \<not> invalidChars c \<and> \<not> re_space c) \<and> no_adjacent_underscores r \<and>
         (r \<noteq> [] \<longrightarrow> hd r \<noteq> underscore)"
proof -
  let ?t = "cleaned s"
  have z: "\<not> invalidChars 0 \<and> \<not> re_space 0"
    by (simp add: invalidChars_def re_space_def)
  from limit_to_Inr [OF assms]
  have shape: "r = ?t \<or> (?t \<noteq> [] \<and> r = take n ?t @ replicate (n - length ?t) 0)"
    by (auto simp: len_def)
  then obtain k j where r: "r = take k ?t @ replicate j 0"
    by (metis append_Nil2 replicate_0 take_all order_refl)
  have "\<forall>c\<in>set r. \<not> invalidChars c \<and> \<not> re_space c"
    using cleaned_chars [of _ s] z unfolding r by (auto dest: in_set_takeD)
  moreover have "no_adjacent_underscores r"
    unfolding r
    by (intro no_adjacent_underscores_padded no_adjacent_underscores_take cleaned_collapsed)
  moreover have "hd r \<noteq> underscore" if ne: "r \<noteq> []"
  proof -
    from shape show ?thesis
    proof
      assume "r = ?t"
      with ne cleaned_ends [of s] show ?thesis by simp
    next
      assume pad: "?t \<noteq> [] \<and> r = take n ?t @ replicate (n - length ?t) 0"
      with ne have "0 < n" by (cases n) auto
      with pad have "hd r = hd ?t" by (cases ?t) auto
      with pad cleaned_ends [of s] show ?thesis by simp
    qed
  qed
  ultimately show ?thesis by blast
qed

section \<open>The steps of the sanitizer\<close>

lemma strip_left_dropWhile: "strip_left P s = dropWhile P s"
  by (induction s) simp_all

lemma strip_TrimFunc: "strip P s = TrimFunc s P"
  by (simp add: strip_def strip_left_dropWhile TrimFunc_def TrimLeftFunc_def TrimRightFunc_def)

lemma replace_reserved_ReplaceAllString:
  "map replace_reserved s = ReplaceAllString invalidChars s [underscore]"
  by (induction s)
     (simp_all add: ReplaceAllString_def replace_reserved_def invalidChars_def underscore_def)

lemma in_run_multiSpace: "in_run c = multiSpace c"
  by (auto simp: in_run_def multiSpace_def re_space_def underscore_def)

lemma collapse_runs_ReplaceAllString_plus:
  "collapse_runs False s = ReplaceAllString_plus multiSpace s [underscore] \<and>
   collapse_runs True s = ReplaceAllString_plus multiSpace (dropWhile multiSpace s) [underscore]"
  by (induction s) (simp_all add: in_run_multiSpace underscore_def)

text \<open>
  What the pass does to runs: a run becomes one underscore, a string without run
  characters stays, and strings that do not meet inside a run are treated apart.
\<close>

lemma collapse_runs_of_run:
  "s \<noteq> [] \<Longrightarrow> \<forall>c\<in>set s. in_run c \<Longrightarrow>
   collapse_runs False s = [95] \<and> collapse_runs True s = []"
proof (induction s)
  case Nil
  then show ?case by simp
next
  case (Cons c cs)
  then show ?case by (cases cs) simp_all
qed

lemma collapse_runs_no_run: "\<forall>c\<in>set s. \<not> in_run c \<Longrightarrow> collapse_runs inside s = s"
  by (induction s arbitrary: inside) simp_all

lemma collapse_runs_append:
  "xs \<noteq> [] \<Longrightarrow>
   collapse_runs inside (xs @ ys) = collapse_runs inside xs @ collapse_runs (in_run (last xs)) ys"
proof (induction xs arbitrary: inside)
  case Nil
  then show ?case by simp
next
  case (Cons x xs)
  then show ?case by (cases "xs = []") auto
qed

lemma sanitize_steps_cleaned: "sanitize_steps s = cleaned s"
proof -
  have q: "(\<lambda>c. c \<in> {34, 39, 96}) = (\<lambda>r. r \<in> set [34, 39, 96 :: nat])" by auto
  have u: "(\<lambda>c. c = (95 :: nat)) = (\<lambda>r. r \<in> set [underscore])"
    by (auto simp: underscore_def)
  show ?thesis
    unfolding sanitize_steps_def cleaned_def Trim_def TrimSpace_def
    by (simp only: strip_TrimFunc replace_reserved_ReplaceAllString
        collapse_runs_ReplaceAllString_plus q u)
qed

text \<open>
  C7, as stated, fails: the vertical tab is white space (\<open>unicode.IsSpace\<close>, by which the
  sanitizer itself trims), the class \<open>\s\<close> of the regular expression does not have it,
  and the name \<open>a\vb\<close> is returned as it is, white space inside.
\<close>

theorem vertical_tab_is_kept:
  "IsSpace 11 \<and> cleanFileName buffer32 [97, 11, 98] = Inr [97, 11, 98] \<and>
   cleanFolderName buffer32 [97, 11, 98] = Inr [97, 11, 98]"
  by (simp add: clean_simps)

text \<open>
  C7, amended: after stripping quotes and white space at the ends, the sanitizer replaces
  every character of the reserved set by an underscore, collapses every run of tab, line
  feed, form feed, carriage return, space and underscore into one underscore, and strips
  the underscores at both ends: what \<open>cleanFileName\<close> and \<open>cleanFolderName\<close> compute is the
  result of these steps, \<open>sanitize_steps\<close>, put through the length check, and it is that
  result itself when it has at most 50 (30) bytes. For the candidate
  "  My/File:Name??  " the result is "My_File_Name". Every name that \<open>cleanFileName\<close> or
  \<open>cleanFolderName\<close> returns has no reserved character, none of those five white-space
  characters, no two underscores in a row and no underscore at its start.
\<close>

theorem sanitizer_replaces_collapses_trims:
  "cleanFileName spare (ascii ''  My/File:Name??  '') = Inr (ascii ''My_File_Name'') \<and>
   cleanFileName spare s = limit_to 50 spare (sanitize_steps s) \<and>
   cleanFolderName spare s = limit_to 30 spare (sanitize_steps s) \<and>
   (len (sanitize_steps s) \<le> 50 \<longrightarrow> cleanFileName spare s = Inr (sanitize_steps s)) \<and>
   (len (sanitize_steps s) \<le> 30 \<longrightarrow> cleanFolderName spare s = Inr (sanitize_steps s)) \<and>
   (cleanFileName spare s = Inr r \<or> cleanFolderName spare s = Inr r \<longrightarrow>
      (\<forall>c\<in>set r. \<not> invalidChars c \<and> \<not> re_space c) \<and> no_adjacent_underscores r \<and>
      (r \<noteq> [] \<longrightarrow> hd r \<noteq> underscore))"
proof (intro conjI impI)
  show "cleanFileName spare (ascii ''  My/File:Name??  '') = Inr (ascii ''My_File_Name'')"
    by (simp add: clean_simps)
  show "cleanFileName spare s = limit_to 50 spare (sanitize_steps s)"
    by (simp add: cleanFileName_cleaned sanitize_steps_cleaned)
  show "cleanFolderName spare s = limit_to 30 spare (sanitize_steps s)"
    by (simp add: cleanFolderName_cleaned sanitize_steps_cleaned)
  show "cleanFileName spare s = Inr (sanitize_steps s)" if "len (sanitize_steps s) \<le> 50"
    using that by (simp add: cleanFileName_cleaned sanitize_steps_cleaned limit_to_short)
  show "cleanFolderName spare s = Inr (sanitize_steps s)" if "len (sanitize_steps s) \<le> 30"
    using that by (simp add: cleanFolderName_cleaned sanitize_steps_cleaned limit_to_short)
next
  assume "cleanFileName spare s = Inr r \<or> cleanFolderName spare s = Inr r"
  then have "limit_to 50 spare (cleaned s) = Inr r \<or> limit_to 30 spare (cleaned s) = Inr r"
    by (simp add: cleanFileName_cleaned cleanFolderName_cleaned)
  then have *: "(\<forall>c\<in>set r. \<not> invalidChars c \<and> \<not> re_space c) \<and> no_adjacent_underscores r \<and>
         (r \<noteq> [] \<longrightarrow> hd r \<noteq> underscore)"
    using limit_to_cleaned_props by blast
  from * show "\<forall>c\<in>set r. \<not> invalidChars c \<and> \<not> re_space c" by blast
  from * show "no_adjacent_underscores r" by blast
  from * show "hd r \<noteq> underscore" if "r \<noteq> []" using that by blast
qed

theorem sanitizer_replaces_collapses_trims_witness:
  "sanitize_steps (ascii ''\"a<b  c__d/e*\"'') = ascii ''a_b_c_d_e'' \<and>
   len (sanitize_steps (ascii ''\"a<b  c__d/e*\"'')) \<le> 30 \<and>
   cleanFolderName buffer32 (ascii ''\"a<b  c__d/e*\"'') = Inr (ascii ''a_b_c_d_e'') \<and>
   cleanFileName buffer32 (ascii ''\"a<b  c__d/e*\"'') = Inr (ascii ''a_b_c_d_e'') \<and>
   list_all (\<lambda>c. \<not> invalidChars c \<and> \<not> re_space c) (ascii ''a_b_c_d_e'') \<and>
   no_adjacent_underscores (ascii ''a_b_c_d_e'') \<and>
   hd (ascii ''a_b_c_d_e'') \<noteq> underscore"
proof -
  let ?s = "ascii ''\"a<b  c__d/e*\"''"
  let ?r = "ascii ''a_b_c_d_e''"
  have st: "sanitize_steps ?s = ?r"
    by (simp add: sanitize_steps_def strip_def replace_reserved_def in_run_def IsSpace_def
        ascii_def)
  have l: "len ?r \<le> 30" by (simp add: len_def utf8_width_def ascii_def)
  have ne: "?r \<noteq> []" by (simp add: ascii_def)
  from sanitizer_replaces_collapses_trims [of buffer32 ?s ?r] st l
  have f: "cleanFolderName buffer32 ?s = Inr ?r" and g: "cleanFileName buffer32 ?s = Inr ?r"
    by (simp_all add: limit_to_short)
  from sanitizer_replaces_collapses_trims [of buffer32 ?s ?r] f ne
  have "(\<forall>c\<in>set ?r. \<not> invalidChars c \<and> \<not> re_space c) \<and> no_adjacent_underscores ?r \<and>
        hd ?r \<noteq> underscore" by blast
  with st l f g show ?thesis by (simp add: list_all_iff)
qed

section \<open>Sanitizing twice\<close>

lemma count_list_replicate_same: "count_list (replicate k x) x = k"
  by (induction k) simp_all

lemma limit_to_cleaned_twice:
  assumes first: "limit_to n spare (cleaned s) = Inr r"
  shows "limit_to n spare (cleaned r) = Inr r \<longleftrightarrow> clean_ends r"
proof
  from limit_to_cleaned_props [OF first]
  have chars: "\<forall>c\<in>set r. \<not> invalidChars c \<and> \<not> re_space c"
    and adj: "no_adjacent_underscores r" by simp_all
  {
    assume "clean_ends r"
    with chars adj have "cleaned r = r" by (rule cleaned_stable)
    with limit_to_fixed [OF first] show "limit_to n spare (cleaned r) = Inr r" by simp
  }
  {
    assume second: "limit_to n spare (cleaned r) = Inr r"
    show "clean_ends r"
    proof (rule ccontr)
      assume "\<not> clean_ends r"
      with chars adj have shorter: "length (cleaned r) < length r" by (rule cleaned_shorter)
      from limit_to_Inr [OF second] shorter
      have pad: "r = take n (cleaned r) @ replicate (n - length (cleaned r)) 0" by auto
      show False
      proof (cases "n \<le> length (cleaned r)")
        case True
        with pad have "length r \<le> length (cleaned r)"
          by (metis append_Nil2 diff_is_0_eq length_take min.cobounded1 replicate_0)
        with shorter show False by simp
      next
        case False
        with pad have "r = cleaned r @ replicate (n - length (cleaned r)) 0" by simp
        then have "count_list r 0 =
            count_list (cleaned r @ replicate (n - length (cleaned r)) 0) 0" by simp
        then have "count_list r 0 = count_list r 0 + (n - length (cleaned r))"
          by (simp add: count_cleaned_zero count_list_replicate_same)
        with False show False by simp
      qed
    qed
  }
qed

text \<open>
  C4, as stated, fails, in three ways. The quote characters \<open>'\<close> and \<open>`\<close> are trimmed only
  at the ends of the input and are not reserved: \<open>_'a\<close> gives \<open>'a\<close>, and that gives \<open>a\<close>.
  The vertical tab is trimmed as white space at the ends and not collapsed inside:
  \<open>_\va\<close> gives \<open>\va\<close>, and that gives \<open>a\<close>. Truncation comes after trimming: forty-nine
  letters followed by \<open>_b\<close> give the forty-nine letters and the underscore, and that
  gives the forty-nine letters.
\<close>

theorem sanitizer_is_not_idempotent:
  "cleanFileName buffer32 [95, 39, 97] = Inr [39, 97] \<and>
   cleanFileName buffer32 [39, 97] = Inr [97] \<and>
   cleanFolderName buffer32 [95, 11, 97] = Inr [11, 97] \<and>
   cleanFolderName buffer32 [11, 97] = Inr [97] \<and>
   cleanFileName buffer32 (replicate 49 97 @ [95, 98]) = Inr (replicate 49 97 @ [95]) \<and>
   cleanFileName buffer32 (replicate 49 97 @ [95]) = Inr (replicate 49 97)"
  by (simp add: clean_simps buffer32_def roundupsize_def size_classes_def replicate_numeral)

text \<open>
  C4, amended: for every string on which a sanitizer returns, sanitizing the result
  again returns the same result exactly when that result is empty or neither begins nor
  ends with a quote character, a white-space character or an underscore. This holds
  for \<open>cleanFileName\<close> and for \<open>cleanFolderName\<close>.
\<close>

theorem sanitizer_idempotent_iff_clean_ends:
  "(cleanFileName spare s = Inr r \<longrightarrow> (cleanFileName spare r = Inr r \<longleftrightarrow> clean_ends r)) \<and>
   (cleanFolderName spare s = Inr r \<longrightarrow> (cleanFolderName spare r = Inr r \<longleftrightarrow> clean_ends r))"
  using limit_to_cleaned_twice [of 50 spare s r] limit_to_cleaned_twice [of 30 spare s r]
  by (simp add: cleanFileName_cleaned cleanFolderName_cleaned)

theorem sanitizer_idempotent_iff_clean_ends_witness:
  "cleanFileName buffer32 (ascii ''  My/File:Name??  '') = Inr (ascii ''My_File_Name'') \<and>
   clean_ends (ascii ''My_File_Name'') \<and>
   cleanFileName buffer32 (ascii ''My_File_Name'') = Inr (ascii ''My_File_Name'') \<and>
   cleanFolderName buffer32 [95, 39, 97] = Inr [39, 97] \<and>
   \<not> clean_ends [39, 97] \<and>
   cleanFolderName buffer32 [39, 97] \<noteq> Inr [39, 97]"
proof -
  have e: "cleanFileName buffer32 (ascii ''  My/File:Name??  '') = Inr (ascii ''My_File_Name'')"
    by (simp add: clean_simps)
  have c: "clean_ends (ascii ''My_File_Name'')"
    by (simp add: clean_ends_def trimmed_char_def IsSpace_def underscore_def ascii_def)
  have e': "cleanFolderName buffer32 [95, 39, 97] = Inr [39, 97]"
    by (simp add: clean_simps)
  have c': "\<not> clean_ends [39, 97]"
    by (simp add: clean_ends_def trimmed_char_def)
  from sanitizer_idempotent_iff_clean_ends
         [of buffer32 "ascii ''  My/File:Name??  ''" "ascii ''My_File_Name''"]
    sanitizer_idempotent_iff_clean_ends [of buffer32 "[95, 39, 97]" "[39, 97]"] e c e' c'
  show ?thesis by simp
qed

end
